theory Spec2Isabelle
  imports Complex_Main "HOL-Library.Word" "HOL-Library.Log_Nat"
begin

unbundle bit_operations_syntax

section \<open>Go's float64\<close>

text \<open>
  The geometry of a frame and the opacity are computed in \<open>float64\<close>, IEEE 754 binary64
  with rounding to nearest, ties to even. A finite value is modelled by the rational number
  it denotes; every operation rounds the exact result to the 53-bit significand of the
  format. The program only ever produces non-negative values, so the sign of a zero is not
  modelled.
\<close>

text \<open>The binary exponent \<open>e\<close> of a positive rational: \<open>2^e \<le> x < 2^(e+1)\<close>.\<close>

definition ilog2 :: "rat \<Rightarrow> int" where
  "ilog2 x = (case quotient_of x of (p, q) \<Rightarrow>
                (let d = bitlen p - bitlen q in if 2 powi d \<le> x then d else d - 1))"

definition round_half_even :: "rat \<Rightarrow> int" where
  "round_half_even y =
     (let f = \<lfloor>y\<rfloor>; r = y - of_int f
      in if r < 1 / 2 then f else if 1 / 2 < r then f + 1 else if even f then f else f + 1)"

text \<open>
  The spacing of the binary64 numbers around \<open>x\<close>: 52 fraction bits below the exponent,
  which does not go below that of the smallest normal number (gradual underflow).
\<close>

definition fexp :: "rat \<Rightarrow> int" where
  "fexp x = max (ilog2 \<bar>x\<bar>) (- 1022)"

definition quantum :: "rat \<Rightarrow> rat" where
  "quantum x = 2 powi (fexp x - 52)"

definition round_to_binary64 :: "rat \<Rightarrow> rat" where
  "round_to_binary64 x =
     (if x = 0 then 0 else of_int (round_half_even (x / quantum x)) * quantum x)"

datatype float64 = Finite rat | PosInf | NegInf | NaN

text \<open>A rounded result of magnitude \<open>2^1024\<close> or more overflows to an infinity.\<close>

definition round64 :: "rat \<Rightarrow> float64" where
  "round64 x =
     (let r = round_to_binary64 x
      in if 1024 \<le> ilog2 \<bar>r\<bar> then (if 0 < x then PosInf else NegInf) else Finite r)"

text \<open>The conversion \<open>float64(n)\<close> of an integer.\<close>

definition float64_of_int :: "int \<Rightarrow> float64" where
  "float64_of_int n = round64 (of_int n)"

text \<open>Division: a finite non-zero value over zero is an infinity, zero over zero is NaN.\<close>

fun float_div :: "float64 \<Rightarrow> float64 \<Rightarrow> float64" where
  "float_div NaN _ = NaN"
| "float_div _ NaN = NaN"
| "float_div (Finite a) (Finite b) =
     (if b = 0 then (if a = 0 then NaN else if 0 < a then PosInf else NegInf)
      else round64 (a / b))"
| "float_div (Finite a) _ = Finite 0"
| "float_div PosInf (Finite b) = (if 0 \<le> b then PosInf else NegInf)"
| "float_div NegInf (Finite b) = (if 0 \<le> b then NegInf else PosInf)"
| "float_div _ _ = NaN"

fun float_mul :: "float64 \<Rightarrow> float64 \<Rightarrow> float64" where
  "float_mul NaN _ = NaN"
| "float_mul _ NaN = NaN"
| "float_mul (Finite a) (Finite b) = round64 (a * b)"
| "float_mul (Finite a) PosInf = (if a = 0 then NaN else if 0 < a then PosInf else NegInf)"
| "float_mul (Finite a) NegInf = (if a = 0 then NaN else if 0 < a then NegInf else PosInf)"
| "float_mul PosInf (Finite b) = (if b = 0 then NaN else if 0 < b then PosInf else NegInf)"
| "float_mul NegInf (Finite b) = (if b = 0 then NaN else if 0 < b then NegInf else PosInf)"
| "float_mul PosInf PosInf = PosInf"
| "float_mul NegInf NegInf = PosInf"
| "float_mul _ _ = NegInf"

text \<open>The comparison \<open>x > y\<close>: false as soon as one side is NaN.\<close>

fun float_gt :: "float64 \<Rightarrow> float64 \<Rightarrow> bool" where
  "float_gt NaN _ = False"
| "float_gt _ NaN = False"
| "float_gt (Finite a) (Finite b) = (b < a)"
| "float_gt (Finite a) NegInf = True"
| "float_gt PosInf (Finite b) = True"
| "float_gt PosInf NegInf = True"
| "float_gt _ _ = False"

text \<open>
  The conversions \<open>int(f)\<close> and \<open>uint8(f)\<close> discard the fraction (truncation towards zero).
  When the value does not fit the target type, or is an infinity or NaN, Go leaves the
  result to the implementation: the model returns \<open>None\<close> there.
\<close>

definition go_trunc :: "rat \<Rightarrow> int" where
  "go_trunc q = (if 0 \<le> q then \<lfloor>q\<rfloor> else \<lceil>q\<rceil>)"

definition int_of_float64 :: "float64 \<Rightarrow> int option" where
  "int_of_float64 f =
     (case f of
        Finite q \<Rightarrow> (let t = go_trunc q in if - (2 ^ 63) \<le> t \<and> t < 2 ^ 63 then Some t else None)
      | _ \<Rightarrow> None)"

definition uint8_of_float64 :: "float64 \<Rightarrow> 8 word option" where
  "uint8_of_float64 f =
     (case f of
        Finite q \<Rightarrow> (let t = go_trunc q in if 0 \<le> t \<and> t \<le> 255 then Some (word_of_int t) else None)
      | _ \<Rightarrow> None)"

text \<open>The unit roundoff of binary64, used to state error bounds.\<close>

definition u53 :: rat where
  "u53 = 2 powi (- 53)"

text \<open>Go's 64-bit \<open>int\<close>: subtraction wraps around, division truncates towards zero.\<close>

definition wrap64 :: "int \<Rightarrow> int" where
  "wrap64 n = (n + 2 ^ 63) mod 2 ^ 64 - 2 ^ 63"

definition go_div :: "int \<Rightarrow> int \<Rightarrow> int" where
  "go_div a b = sgn a * sgn b * (\<bar>a\<bar> div \<bar>b\<bar>)"


section \<open>The fitted rectangle and the alpha mask (RenderImage, lines 291-316)\<close>

text \<open>
  \<open>RenderImage\<close> reads the window geometry (\<open>geom.Width\<close> and \<open>geom.Height\<close>, both
  \<open>uint16\<close>) and the bounds of the source image (Go \<open>int\<close>), and computes the size of the
  scaled frame and its offset inside the window:
  \<^verbatim>\<open>
  aspect := float64(originalBounds.Dx()) / float64(originalBounds.Dy())
  width := int(geom.Width); height := int(geom.Height)
  xOffset := 0; yOffset := 0
  newAspect := float64(width) / float64(height)
  if newAspect > aspect {
      newWidth := int(aspect * float64(height))
      xOffset = (width - newWidth) / 2
      width = newWidth
  } else {
      newHeight := int(float64(width) / aspect)
      yOffset = (height - newHeight) / 2
      height = newHeight
  }
  \<close>
\<close>

record fitted =
  fit_width :: int
  fit_height :: int
  xOffset :: int
  yOffset :: int

definition RenderImage_fit :: "int \<Rightarrow> int \<Rightarrow> 16 word \<Rightarrow> 16 word \<Rightarrow> fitted option" where
  "RenderImage_fit srcW srcH geomW geomH =
     (let aspect = float_div (float64_of_int srcW) (float64_of_int srcH);
          width = uint geomW;
          height = uint geomH;
          newAspect = float_div (float64_of_int width) (float64_of_int height)
      in if float_gt newAspect aspect
         then (case int_of_float64 (float_mul aspect (float64_of_int height)) of
                 None \<Rightarrow> None
               | Some newWidth \<Rightarrow>
                   Some \<lparr>fit_width = newWidth, fit_height = height,
                         xOffset = go_div (wrap64 (width - newWidth)) 2, yOffset = 0\<rparr>)
         else (case int_of_float64 (float_div (float64_of_int width) aspect) of
                 None \<Rightarrow> None
               | Some newHeight \<Rightarrow>
                   Some \<lparr>fit_width = width, fit_height = newHeight,
                         xOffset = 0, yOffset = go_div (wrap64 (height - newHeight)) 2\<rparr>))"



text \<open>
  The alpha of the uniform mask: \<open>const fullAlpha = 255\<close>,
  \<open>alpha := uint8(fullAlpha * display.imageOpacity)\<close>.
\<close>

definition mask_alpha :: "float64 \<Rightarrow> 8 word option" where
  "mask_alpha opacity = uint8_of_float64 (float_mul (Finite 255) opacity)"

text \<open>
  Modelled from the spec: the scaling call \<open>draw.NearestNeighbor.Scale\<close> with
  \<open>draw.Over\<close> and \<open>SrcMask: mask\<close> belongs to the library golang.org/x/image/draw, which is
  not part of the repository. By section 4.2, step 4 of the spec the alpha channel of every
  output pixel is multiplied by the alpha of the mask under the source-over rule; the
  frame drawn on is freshly allocated, hence fully transparent, so the output alpha is
  the masked source alpha. Both factors are 8-bit fractions of 255.
\<close>

definition masked_alpha :: "8 word \<Rightarrow> 8 word \<Rightarrow> 8 word" where
  "masked_alpha pixel_alpha m = word_of_nat (unat pixel_alpha * unat m div 255)"


section \<open>Pixel packing for the display connection (RenderImage, lines 329-340)\<close>

text \<open>
  The scaled frame is an \<open>image.RGBA\<close>: its \<open>At(x, y)\<close> yields a \<open>color.RGBA\<close> with four
  8-bit channels. The frame is modelled by that accessor.
\<close>

record rgba =
  chan_R :: "8 word"
  chan_G :: "8 word"
  chan_B :: "8 word"
  chan_A :: "8 word"

text \<open>
  \<open>color.RGBA.RGBA()\<close> of the Go standard library widens every channel to 16 bits inside a
  \<open>uint32\<close>: \<open>r = uint32(c.R); r |= r << 8\<close>, and the same for g, b and a.
\<close>

definition widen16 :: "8 word \<Rightarrow> 32 word" where
  "widen16 c = (ucast c) OR (push_bit 8 (ucast c))"

definition RGBA_method :: "rgba \<Rightarrow> 32 word \<times> 32 word \<times> 32 word \<times> 32 word" where
  "RGBA_method c = (widen16 (chan_R c), widen16 (chan_G c), widen16 (chan_B c), widen16 (chan_A c))"

text \<open>
  The body of the inner loop: \<open>r, g, b, a := img.At(x, y).RGBA()\<close> followed by four appends
  of \<open>byte(b)\<close>, \<open>byte(g)\<close>, \<open>byte(r)\<close>, \<open>byte(a)\<close>. The conversion \<open>byte(v)\<close> keeps the low
  eight bits.
\<close>

definition pack_pixel :: "rgba \<Rightarrow> 8 word list" where
  "pack_pixel c = (case RGBA_method c of (r, g, b, a) \<Rightarrow> [ucast b, ucast g, ucast r, ucast a])"

text \<open>The two nested loops: rows \<open>y = 0 .. height - 1\<close>, inside each row \<open>x = 0 .. width - 1\<close>.\<close>

definition pack_row :: "(nat \<Rightarrow> nat \<Rightarrow> rgba) \<Rightarrow> nat \<Rightarrow> nat \<Rightarrow> 8 word list" where
  "pack_row img width y = concat (map (\<lambda>x. pack_pixel (img x y)) [0..<width])"

definition pack_image :: "(nat \<Rightarrow> nat \<Rightarrow> rgba) \<Rightarrow> nat \<Rightarrow> nat \<Rightarrow> 8 word list" where
  "pack_image img width height = concat (map (pack_row img width) [0..<height])"

text \<open>
  The reading side of the round trip, following the claim's words: four bytes taken in the
  order blue, green, red, alpha give back a pixel.
\<close>

definition unpack_bgra :: "8 word list \<Rightarrow> rgba option" where
  "unpack_bgra bs = (case bs of [b, g, r, a] \<Rightarrow> Some \<lparr>chan_R = r, chan_G = g, chan_B = b, chan_A = a\<rparr>
                     | _ \<Rightarrow> None)"

text \<open>The four bytes of the pixel at \<open>(x, y)\<close> inside the packed buffer.\<close>

definition bytes_at :: "8 word list \<Rightarrow> nat \<Rightarrow> nat \<Rightarrow> nat \<Rightarrow> 8 word list" where
  "bytes_at data width x y = take 4 (drop (4 * (y * width + x)) data)"


section \<open>The shared-memory transfer (RenderImage, lines 342-413)\<close>

text \<open>
  The second half of \<open>RenderImage\<close> talks to the operating system and to the display
  server. The model records every call in a trace and takes the outcome of each call from
  an environment: the error it returns (\<open>None\<close> for nil), and for \<open>SysvShmAttach\<close> the
  length of the mapped buffer.
\<close>

datatype shm_call =
    SysvShmGet nat
  | SysvShmAttach
  | CopyBytes
  | NewSegId
  | ShmAttach
  | ShmPutImage
  | ShmDetach
  | SysvShmDetach
  | SysvShmCtlRmid
  | Println string

record shm_env =
  shmget_err :: "string option"
  shmat_err :: "string option"
  shmat_len :: nat
  newsegid_err :: "string option"
  xattach_err :: "string option"
  putimage_err :: "string option"
  xdetach_err :: "string option"
  shmdt_err :: "string option"
  rmid_err :: "string option"

text \<open>The three deferred functions, named by what they undo.\<close>

datatype deferred = RemoveSegment | DetachProcess | DetachServer

text \<open>\<open>%d\<close> of a non-negative number.\<close>

fun decimal :: "nat \<Rightarrow> string" where
  "decimal n = (if n < 10 then [char_of (48 + n)] else decimal (n div 10) @ [char_of (48 + n mod 10)])"

text \<open>
  The statements from \<open>SysvShmGet\<close> to the final \<open>return nil\<close>, up to the moment the
  function returns: the value returned, the calls made, and the stack of deferred
  functions registered so far (the most recent first).
\<close>

definition transfer_body :: "shm_env \<Rightarrow> nat \<Rightarrow> string option \<times> shm_call list \<times> deferred list" where
  "transfer_body env nbytes =
     (case shmget_err env of
        Some e \<Rightarrow> (Some (''create shared memory segment: '' @ e), [SysvShmGet nbytes], [])
      | None \<Rightarrow>
     (case shmat_err env of
        Some e \<Rightarrow> (Some (''attach to shared memory segment: '' @ e),
                   [SysvShmGet nbytes, SysvShmAttach], [RemoveSegment])
      | None \<Rightarrow>
     (let n = min (shmat_len env) nbytes in
      if n \<noteq> nbytes
      then (Some (''copy failed, want '' @ decimal nbytes @ '' bytes, got '' @ decimal n),
            [SysvShmGet nbytes, SysvShmAttach, CopyBytes], [DetachProcess, RemoveSegment])
      else
     (case newsegid_err env of
        Some e \<Rightarrow> (Some (''new segment id: '' @ e),
                   [SysvShmGet nbytes, SysvShmAttach, CopyBytes, NewSegId],
                   [DetachProcess, RemoveSegment])
      | None \<Rightarrow>
     (case xattach_err env of
        Some e \<Rightarrow> (Some (''attach to shared memory segment (X): '' @ e),
                   [SysvShmGet nbytes, SysvShmAttach, CopyBytes, NewSegId, ShmAttach],
                   [DetachProcess, RemoveSegment])
      | None \<Rightarrow>
     (case putimage_err env of
        Some e \<Rightarrow> (Some (''put image: '' @ e),
                   [SysvShmGet nbytes, SysvShmAttach, CopyBytes, NewSegId, ShmAttach, ShmPutImage],
                   [DetachServer, DetachProcess, RemoveSegment])
      | None \<Rightarrow> (None,
                   [SysvShmGet nbytes, SysvShmAttach, CopyBytes, NewSegId, ShmAttach, ShmPutImage],
                   [DetachServer, DetachProcess, RemoveSegment])))))))"

text \<open>
  One deferred function: the cleanup call, and a \<open>fmt.Println\<close> when it fails. None of
  them touches the value being returned (the result of \<open>RenderImage\<close> is unnamed, so the
  assignment to \<open>err\<close> in the last one is to a local variable).
\<close>

definition run_deferred :: "shm_env \<Rightarrow> deferred \<Rightarrow> shm_call list" where
  "run_deferred env d =
     (case d of
        DetachServer \<Rightarrow> ShmDetach #
          (case xdetach_err env of Some e \<Rightarrow> [Println (''detach from shared memory (X): '' @ e)] | None \<Rightarrow> [])
      | DetachProcess \<Rightarrow> SysvShmDetach #
          (case shmdt_err env of Some e \<Rightarrow> [Println (''detach from shared memory segment: '' @ e)] | None \<Rightarrow> [])
      | RemoveSegment \<Rightarrow> SysvShmCtlRmid #
          (case rmid_err env of Some e \<Rightarrow> [Println (''destroy shared memmory segment: '' @ e)] | None \<Rightarrow> []))"

text \<open>The whole transfer: the body, then the deferred functions, last registered first.\<close>

definition transfer :: "shm_env \<Rightarrow> nat \<Rightarrow> string option \<times> shm_call list" where
  "transfer env nbytes =
     (case transfer_body env nbytes of
        (result, calls, defers) \<Rightarrow> (result, calls @ concat (map (run_deferred env) defers)))"

text \<open>
  The claim's side. The setup steps that hold a resource once they have completed, in the
  order in which the transfer performs them: creating the segment, attaching it to the
  process, attaching it to the server. A step completes when it and every step before it
  succeeds; between the process attach and the server attach lie the byte copy and the
  allocation of the segment id.
\<close>

datatype resource = Segment | Mapping | ServerHandle

definition completed_setup :: "shm_env \<Rightarrow> nat \<Rightarrow> resource list" where
  "completed_setup env nbytes =
     (if shmget_err env \<noteq> None then []
      else if shmat_err env \<noteq> None then [Segment]
      else if min (shmat_len env) nbytes \<noteq> nbytes \<or> newsegid_err env \<noteq> None \<or> xattach_err env \<noteq> None
           then [Segment, Mapping]
      else [Segment, Mapping, ServerHandle])"

text \<open>The cleanup that belongs to a resource, with its log line when it fails.\<close>

definition cleanup_of :: "shm_env \<Rightarrow> resource \<Rightarrow> shm_call list" where
  "cleanup_of env r =
     (case r of
        ServerHandle \<Rightarrow> ShmDetach #
          (case xdetach_err env of Some e \<Rightarrow> [Println (''detach from shared memory (X): '' @ e)] | None \<Rightarrow> [])
      | Mapping \<Rightarrow> SysvShmDetach #
          (case shmdt_err env of Some e \<Rightarrow> [Println (''detach from shared memory segment: '' @ e)] | None \<Rightarrow> [])
      | Segment \<Rightarrow> SysvShmCtlRmid #
          (case rmid_err env of Some e \<Rightarrow> [Println (''destroy shared memmory segment: '' @ e)] | None \<Rightarrow> []))"

text \<open>The setup and transfer calls of a trace, and what follows them.\<close>

definition is_setup_call :: "shm_call \<Rightarrow> bool" where
  "is_setup_call c =
     (case c of SysvShmGet _ \<Rightarrow> True | SysvShmAttach \<Rightarrow> True | CopyBytes \<Rightarrow> True
      | NewSegId \<Rightarrow> True | ShmAttach \<Rightarrow> True | ShmPutImage \<Rightarrow> True | _ \<Rightarrow> False)"

text \<open>
  The result as the five transfer steps decide it: the outcomes of segment creation,
  process attach, byte copy, server attach (the segment id and the attach request) and
  put-image, and nothing else.
\<close>

definition steps_result :: "string option \<Rightarrow> string option \<Rightarrow> nat \<Rightarrow> string option \<Rightarrow> string option
    \<Rightarrow> string option \<Rightarrow> nat \<Rightarrow> string option" where
  "steps_result create attach buflen segid xattach putimage nbytes =
     (case create of Some e \<Rightarrow> Some (''create shared memory segment: '' @ e) | None \<Rightarrow>
      case attach of Some e \<Rightarrow> Some (''attach to shared memory segment: '' @ e) | None \<Rightarrow>
      if min buflen nbytes \<noteq> nbytes
      then Some (''copy failed, want '' @ decimal nbytes @ '' bytes, got '' @ decimal (min buflen nbytes))
      else
      case segid of Some e \<Rightarrow> Some (''new segment id: '' @ e) | None \<Rightarrow>
      case xattach of Some e \<Rightarrow> Some (''attach to shared memory segment (X): '' @ e) | None \<Rightarrow>
      case putimage of Some e \<Rightarrow> Some (''put image: '' @ e) | None \<Rightarrow> None)"


section \<open>View state and the event loop (lines 52-72, 133-138, 438-460, 487)\<close>

text \<open>
  The bookkeeping fields of \<open>ImageWindow\<close>. A \<open>time.Time\<close> is a number of nanoseconds on
  the monotonic clock; the zero \<open>time.Time\<close> is 0.
\<close>

record image_window =
  imageOpacity :: float64
  windowWidth :: int
  windowHeight :: int
  nextRedraw :: int
  dirty :: bool

definition Millisecond :: int where
  "Millisecond = 1000000"

text \<open>\<open>requestRedraw\<close>, with the reading of \<open>time.Now()\<close> as a parameter.\<close>

definition requestRedraw :: "int \<Rightarrow> image_window \<Rightarrow> image_window" where
  "requestRedraw now display = display\<lparr>dirty := True, nextRedraw := now + 50 * Millisecond\<rparr>"

text \<open>
  The events the loop distinguishes, with the fields it reads: \<open>Width\<close> and \<open>Height\<close>
  (\<open>uint16\<close>) of a ConfigureNotify, \<open>EventX\<close> of a ButtonPress (\<open>int16\<close>: sixteen bits read
  as a signed number by \<open>sint\<close>).
  \<open>WaitForEvent\<close> returns an event, or an X error with a nil event, or nil for both.
\<close>

datatype x_event =
    ConfigureNotifyEvent "16 word" "16 word"
  | ButtonPressEvent "16 word"
  | DestroyNotifyEvent
  | OtherEvent

datatype wait_result = Event x_event | XError | NilNil

datatype handler_exit = Returned "string option" | Waiting

text \<open>The message \<open>HandleEvents\<close> returns when the connection yields neither event nor error.\<close>

definition protocol_loss :: string where
  "protocol_loss = ''got no event but err is nil, exiting''"

definition on_ConfigureNotify :: "int \<Rightarrow> 16 word \<Rightarrow> 16 word \<Rightarrow> image_window \<Rightarrow> image_window" where
  "on_ConfigureNotify now w h display =
     (if windowWidth display \<noteq> uint w \<or> windowHeight display \<noteq> uint h
      then requestRedraw now (display\<lparr>windowWidth := uint w, windowHeight := uint h\<rparr>)
      else display)"

definition on_ButtonPress :: "int \<Rightarrow> 16 word \<Rightarrow> image_window \<Rightarrow> image_window" where
  "on_ButtonPress now eventX display =
     (let x = min (windowWidth display) (max 0 (sint eventX))
      in requestRedraw now
           (display\<lparr>imageOpacity := float_div (float64_of_int x) (float64_of_int (windowWidth display))\<rparr>))"

text \<open>
  \<open>HandleEvents\<close> on the results that \<open>WaitForEvent\<close> delivers, each with the clock reading
  at that moment. When the list is used up the loop is blocked in \<open>WaitForEvent\<close>.
\<close>

fun HandleEvents :: "(int \<times> wait_result) list \<Rightarrow> image_window \<Rightarrow> image_window \<times> handler_exit" where
  "HandleEvents [] display = (display, Waiting)"
| "HandleEvents ((now, NilNil) # rest) display =
     (display, Returned (Some protocol_loss))"
| "HandleEvents ((now, XError) # rest) display = HandleEvents rest display"
| "HandleEvents ((now, Event (ConfigureNotifyEvent w h)) # rest) display =
     HandleEvents rest (on_ConfigureNotify now w h display)"
| "HandleEvents ((now, Event (ButtonPressEvent eventX)) # rest) display =
     HandleEvents rest (on_ButtonPress now eventX display)"
| "HandleEvents ((now, Event DestroyNotifyEvent) # rest) display = (display, Returned None)"
| "HandleEvents ((now, Event OtherEvent) # rest) display = HandleEvents rest display"

text \<open>
  The state in which the event loop starts: \<open>run\<close> clamps the flag with
  \<open>min(1.0, max(0.0, initialOpacity))\<close> (Go's \<open>min\<close> and \<open>max\<close> return NaN as soon as one
  argument is NaN), \<open>loadImage\<close> and \<open>CreateWindow\<close> set the window size to the size of the
  image, and \<open>run\<close> requests the initial draw.
\<close>

definition float_max :: "float64 \<Rightarrow> float64 \<Rightarrow> float64" where
  "float_max a b = (if a = NaN \<or> b = NaN then NaN else if float_gt b a then b else a)"

definition float_min :: "float64 \<Rightarrow> float64 \<Rightarrow> float64" where
  "float_min a b = (if a = NaN \<or> b = NaN then NaN else if float_gt a b then b else a)"

definition initial_window :: "float64 \<Rightarrow> int \<Rightarrow> int \<Rightarrow> int \<Rightarrow> image_window" where
  "initial_window initialOpacity imageWidth imageHeight now =
     requestRedraw now
       \<lparr>imageOpacity = float_min (Finite 1) (float_max (Finite 0) initialOpacity),
        windowWidth = imageWidth, windowHeight = imageHeight,
        nextRedraw = 0, dirty = False\<rparr>"

text \<open>An opacity that is a real number in [0,1].\<close>

definition opacity_in_unit :: "float64 \<Rightarrow> bool" where
  "opacity_in_unit f = (case f of Finite q \<Rightarrow> 0 \<le> q \<and> q \<le> 1 | _ \<Rightarrow> False)"

text \<open>No ConfigureNotify among the delivered events reports a width of 0.\<close>

fun widths_positive :: "(int \<times> wait_result) list \<Rightarrow> bool" where
  "widths_positive [] = True"
| "widths_positive ((now, Event (ConfigureNotifyEvent w h)) # rest) = (w \<noteq> 0 \<and> widths_positive rest)"
| "widths_positive (_ # rest) = widths_positive rest"

text \<open>
  The condition under which the stored opacity is kept in [0,1]: it is there, and the
  window width is a positive Go \<open>int\<close>.
\<close>

definition view_ok :: "image_window \<Rightarrow> bool" where
  "view_ok display \<longleftrightarrow>
     opacity_in_unit (imageOpacity display) \<and> 1 \<le> windowWidth display \<and> windowWidth display < 2 ^ 63"


section \<open>The renderer goroutine and Close (lines 125-175)\<close>

text \<open>
  Two goroutines share the window: the main goroutine (event loop, \<open>requestRedraw\<close>,
  \<open>Close\<close>) and the renderer started by \<open>go imageWindow.startRenderer(rendererCtx)\<close>. The
  model interleaves them. A step of a goroutine is one of its statements, where a
  critical section of \<open>renderMu\<close> (lock to unlock) is one statement; a schedule says which
  goroutine moves next and when the clock advances.

  The renderer's program counter follows \<open>startRenderer\<close>:
  \<^item> \<open>R_start\<close>: the goroutine exists and has not yet run \<open>display.wg.Add(1)\<close>;
  \<^item> \<open>R_select\<close>: at the \<open>select\<close> at the top of the loop;
  \<^item> \<open>R_sleep t\<close>: inside \<open>time.Sleep(5 * time.Millisecond)\<close>, until the clock reaches \<open>t\<close>;
  \<^item> \<open>R_read\<close>: before the critical section that copies \<open>dirty\<close> and \<open>nextRedraw\<close>;
  \<^item> \<open>R_test d n\<close>: holding the copies \<open>d\<close> and \<open>n\<close>, before
    \<open>dirty && time.Now().After(nextRedraw)\<close> is evaluated;
  \<^item> \<open>R_clear\<close>: before the critical section that sets \<open>dirty = false\<close>;
  \<^item> \<open>R_render\<close>: before the call of \<open>RenderImage\<close>;
  \<^item> \<open>R_done\<close>: returned, the deferred \<open>wg.Done()\<close> has run.
\<close>

datatype renderer_pc =
    R_start | R_select | R_sleep int | R_read | R_test bool int | R_clear | R_render | R_done

text \<open>
  \<open>Close\<close> is three statements: \<open>display.cancelRenderer()\<close>, \<open>display.conn.Close()\<close>,
  \<open>display.wg.Wait()\<close>. The program counter says how many of them have run.
\<close>

datatype close_pc = C_idle | C_cancelled | C_conn_closed | C_returned

text \<open>
  A render pass is logged with the clock reading at which it starts, the value of
  \<open>nextRedraw\<close> at that moment, and whether the connection was already closed.
\<close>

record render_pass =
  fired_at :: int
  deadline_at_fire :: int
  on_closed_conn :: bool

record system =
  window :: image_window
  clock :: int
  cancelled :: bool
  conn_closed :: bool
  wg :: int
  rpc :: renderer_pc
  cpc :: close_pc
  requests :: "int list"
  renders :: "render_pass list"

datatype action =
    Tick int
  | MainRequest
  | MainClose
  | Renderer

text \<open>The next statement of the renderer; \<open>None\<close> when it cannot move (asleep, or returned).\<close>

definition renderer_step :: "system \<Rightarrow> system option" where
  "renderer_step s =
     (case rpc s of
        R_start \<Rightarrow> Some (s\<lparr>wg := wg s + 1, rpc := R_select\<rparr>)
      | R_select \<Rightarrow>
          if cancelled s then Some (s\<lparr>wg := wg s - 1, rpc := R_done\<rparr>)
          else Some (s\<lparr>rpc := R_sleep (clock s + 5 * Millisecond)\<rparr>)
      | R_sleep t \<Rightarrow> if t \<le> clock s then Some (s\<lparr>rpc := R_read\<rparr>) else None
      | R_read \<Rightarrow> Some (s\<lparr>rpc := R_test (dirty (window s)) (nextRedraw (window s))\<rparr>)
      | R_test d n \<Rightarrow> Some (s\<lparr>rpc := (if d \<and> n < clock s then R_clear else R_select)\<rparr>)
      | R_clear \<Rightarrow> Some (s\<lparr>window := (window s)\<lparr>dirty := False\<rparr>, rpc := R_render\<rparr>)
      | R_render \<Rightarrow>
          Some (s\<lparr>renders := renders s @
                    [\<lparr>fired_at = clock s, deadline_at_fire = nextRedraw (window s),
                      on_closed_conn = conn_closed s\<rparr>],
                  rpc := R_select\<rparr>)
      | R_done \<Rightarrow> None)"

text \<open>The next statement of \<open>Close\<close>; \<open>wg.Wait()\<close> blocks while the counter is not 0.\<close>

definition close_step :: "system \<Rightarrow> system option" where
  "close_step s =
     (case cpc s of
        C_idle \<Rightarrow> Some (s\<lparr>cancelled := True, cpc := C_cancelled\<rparr>)
      | C_cancelled \<Rightarrow> Some (s\<lparr>conn_closed := True, cpc := C_conn_closed\<rparr>)
      | C_conn_closed \<Rightarrow> if wg s = 0 then Some (s\<lparr>cpc := C_returned\<rparr>) else None
      | C_returned \<Rightarrow> None)"

text \<open>
  One scheduled action. The clock never runs backwards, and the main goroutine requests
  redraws only before it enters \<open>Close\<close>.
\<close>

definition sys_step :: "action \<Rightarrow> system \<Rightarrow> system option" where
  "sys_step a s =
     (case a of
        Tick d \<Rightarrow> if 0 \<le> d then Some (s\<lparr>clock := clock s + d\<rparr>) else None
      | MainRequest \<Rightarrow>
          if cpc s = C_idle
          then Some (s\<lparr>window := requestRedraw (clock s) (window s),
                       requests := requests s @ [clock s]\<rparr>)
          else None
      | MainClose \<Rightarrow> close_step s
      | Renderer \<Rightarrow> renderer_step s)"

fun exec :: "action list \<Rightarrow> system \<Rightarrow> system option" where
  "exec [] s = Some s"
| "exec (a # as) s = (case sys_step a s of None \<Rightarrow> None | Some s' \<Rightarrow> exec as s')"

text \<open>
  The system when \<open>NewImageWindow\<close> returns: the renderer goroutine has been created, the
  \<open>WaitGroup\<close> counter is still 0, nothing has been requested or rendered.
\<close>

definition system_start :: "image_window \<Rightarrow> int \<Rightarrow> system" where
  "system_start w now =
     \<lparr>window = w, clock = now, cancelled = False, conn_closed = False, wg = 0,
      rpc = R_start, cpc = C_idle, requests = [], renders = []\<rparr>"

definition window0 :: image_window where
  "window0 = \<lparr>imageOpacity = Finite (1 / 2), windowWidth = 200, windowHeight = 100,
              nextRedraw = 0, dirty = False\<rparr>"

text \<open>
  What holds in every reachable state: a pending request carries the deadline of some
  call of \<open>requestRedraw\<close>, and so does the copy the renderer tests; once the test has
  succeeded, and for every render pass logged, the clock has passed such a deadline.
\<close>

definition served :: "int list \<Rightarrow> int \<Rightarrow> bool" where
  "served rs t \<longleftrightarrow> (\<exists>r \<in> set rs. r + 50 * Millisecond < t)"

definition sched_inv :: "system \<Rightarrow> bool" where
  "sched_inv s \<longleftrightarrow>
     (dirty (window s) \<longrightarrow> (\<exists>r \<in> set (requests s). nextRedraw (window s) = r + 50 * Millisecond))
     \<and> (\<forall>r \<in> set (requests s). r \<le> clock s)
     \<and> (\<forall>n. rpc s = R_test True n \<longrightarrow> (\<exists>r \<in> set (requests s). n = r + 50 * Millisecond))
     \<and> (rpc s = R_clear \<or> rpc s = R_render \<longrightarrow> served (requests s) (clock s))
     \<and> (\<forall>p \<in> set (renders s). served (requests s) (fired_at p))"

text \<open>
  Schedules. One idle poll of the renderer: it wakes up, copies the two fields, finds the
  test false, goes back to the \<open>select\<close> and sleeps; 5 ms pass.
\<close>

definition idle_poll :: "action list" where
  "idle_poll = [Renderer, Renderer, Renderer, Renderer, Tick (5 * Millisecond)]"

text \<open>
  The renderer starts and falls asleep; 200 ns later the main goroutine requests the
  initial draw; the renderer polls nine times in vain, every 5 ms, and wakes up for the
  tenth poll 50 ms after its start, 200 ns before the deadline.
\<close>

definition first_request_and_polls :: "action list" where
  "first_request_and_polls =
     [Renderer, Renderer, Tick 200, MainRequest, Tick (5 * Millisecond - 200)]
     @ concat (replicate 9 idle_poll)"

text \<open>
  The race: the tenth poll copies \<open>dirty\<close> and \<open>nextRedraw\<close> and releases the lock; 100 ns
  later the main goroutine calls \<open>requestRedraw\<close> again (49.9999 ms after its first call);
  200 ns later the renderer evaluates \<open>time.Now().After(nextRedraw)\<close> on its copy,
  clears the flag and renders.
\<close>

definition race_schedule :: "action list" where
  "race_schedule =
     first_request_and_polls
     @ [Renderer, Renderer, Tick 100, MainRequest, Tick 200, Renderer, Renderer, Renderer]"

text \<open>
  \<open>Close\<close> while a render pass is pending: the tenth poll is idle, the eleventh finds the
  deadline passed; the main goroutine runs \<open>cancelRenderer()\<close> and \<open>conn.Close()\<close>; the
  renderer clears the flag, renders and returns at the next \<open>select\<close>; \<open>wg.Wait()\<close>
  returns.
\<close>

definition close_schedule :: "action list" where
  "close_schedule =
     first_request_and_polls @ idle_poll
     @ [Renderer, Renderer, Renderer, MainClose, MainClose, Renderer, Renderer, Renderer, MainClose]"

text \<open>
  \<open>Close\<close> right after \<open>NewImageWindow\<close> (as when \<open>CreateWindow\<close> fails at once), before
  the renderer goroutine has run its first statement.
\<close>

definition early_close_schedule :: "action list" where
  "early_close_schedule = [MainClose, MainClose, MainClose]"


section \<open>Process entry (main and run, lines 30-34 and 462-524)\<close>










section \<open>float64: proofs\<close>

subsection \<open>binary exponent\<close>

lemma powi2_pos: "0 < (2::rat) powi n"
  by simp

lemma int_bitlen_powi:
  assumes "0 < (p::int)"
  shows "2 powi (bitlen p - 1) \<le> (of_int p :: rat)" and "(of_int p :: rat) < 2 powi (bitlen p)"
proof -
  from bitlen_bounds[OF assms] have a: "2 ^ nat (bitlen p - 1) \<le> p" and b: "p < 2 ^ nat (bitlen p)"
    by auto
  have ge1: "1 \<le> bitlen p" using assms by (auto simp: bitlen_alt_def)
  have "(of_int (2 ^ nat (bitlen p - 1)) :: rat) \<le> of_int p" using a by (simp only: of_int_le_iff)
  then show "2 powi (bitlen p - 1) \<le> (of_int p :: rat)"
    using ge1 by (simp add: power_int_def)
  have "(of_int p :: rat) < of_int (2 ^ nat (bitlen p))" using b by (simp only: of_int_less_iff)
  then show "(of_int p :: rat) < 2 powi (bitlen p)"
    using ge1 by (simp add: power_int_def)
qed

lemma ilog2_bounds:
  assumes "0 < x"
  shows "2 powi (ilog2 x) \<le> x" and "x < 2 powi (ilog2 x + 1)"
proof -
  obtain p q where pq: "quotient_of x = (p, q)" by (cases "quotient_of x")
  have q: "0 < q" using pq quotient_of_denom_pos by blast
  have x: "x = of_int p / of_int q" using pq quotient_of_div by blast
  have p: "0 < p" using assms q x by (simp add: zero_less_divide_iff)
  note P = int_bitlen_powi[OF p] and Q = int_bitlen_powi[OF q]
  let ?d = "bitlen p - bitlen q"
  have qpos: "(0::rat) < of_int q" using q by simp
  have up: "x < 2 powi (?d + 1)"
  proof -
    have "x < 2 powi (bitlen p) / of_int q"
      unfolding x using P(2) qpos by (simp add: divide_strict_right_mono)
    also have "\<dots> \<le> 2 powi (bitlen p) / 2 powi (bitlen q - 1)"
      using Q(1) q by (intro divide_left_mono) (simp_all add: zero_less_mult_iff)
    also have "\<dots> = 2 powi (?d + 1)"
      by (simp add: power_int_diff power_int_add)
    finally show ?thesis .
  qed
  have lo: "2 powi (?d - 1) \<le> x"
  proof -
    have "2 powi (?d - 1) = 2 powi (bitlen p - 1) / (2 powi (bitlen q) :: rat)"
      by (simp add: power_int_diff power_int_add)
    also have "\<dots> \<le> of_int p / 2 powi (bitlen q)"
      using P(1) by (simp add: divide_right_mono)
    also have "\<dots> \<le> of_int p / of_int q"
      using Q(2) p q by (intro divide_left_mono) (simp_all add: zero_less_mult_iff)
    finally show ?thesis unfolding x .
  qed
  show "2 powi (ilog2 x) \<le> x"
    using lo by (simp add: ilog2_def pq Let_def)
  show "x < 2 powi (ilog2 x + 1)"
    using up by (auto simp: ilog2_def pq Let_def not_le)
qed

lemma powi2_mono: "a \<le> b \<Longrightarrow> (2::rat) powi a \<le> 2 powi b"
  by (rule power_int_increasing) simp_all

lemma powi2_less_imp: "(2::rat) powi a < 2 powi b \<Longrightarrow> a < b"
  using powi2_mono[of b a] by (cases "a < b") auto

lemma ilog2_zero: "ilog2 0 = - 2"
  by code_simp

lemma ilog2_mono:
  assumes "0 < x" and "x \<le> y"
  shows "ilog2 x \<le> ilog2 y"
proof -
  have y: "0 < y" using assms by simp
  have "2 powi (ilog2 x) < (2::rat) powi (ilog2 y + 1)"
    using ilog2_bounds(1)[OF assms(1)] ilog2_bounds(2)[OF y] assms(2) by linarith
  then show ?thesis using powi2_less_imp by fastforce
qed

subsection \<open>round half even\<close>

lemma round_half_even_of_int [simp]: "round_half_even (of_int n) = n"
  by (simp add: round_half_even_def)

lemma round_half_even_error: "\<bar>of_int (round_half_even y) - y\<bar> \<le> 1 / 2"
proof -
  have "of_int \<lfloor>y\<rfloor> \<le> y" "y < of_int \<lfloor>y\<rfloor> + 1" by linarith+
  then show ?thesis
    unfolding round_half_even_def Let_def by (auto simp: abs_le_iff) 
qed

lemma round_half_even_mono:
  assumes "y \<le> z"
  shows "round_half_even y \<le> round_half_even z"
proof -
  have fy: "of_int \<lfloor>y\<rfloor> \<le> y" "y < of_int \<lfloor>y\<rfloor> + 1" by linarith+
  have fz: "of_int \<lfloor>z\<rfloor> \<le> z" "z < of_int \<lfloor>z\<rfloor> + 1" by linarith+
  have m: "\<lfloor>y\<rfloor> \<le> \<lfloor>z\<rfloor>" using assms by (rule floor_mono)
  show ?thesis
  proof (cases "\<lfloor>y\<rfloor> = \<lfloor>z\<rfloor>")
    case True
    then show ?thesis
      using assms unfolding round_half_even_def Let_def by auto
  next
    case False
    then have "\<lfloor>y\<rfloor> + 1 \<le> \<lfloor>z\<rfloor>" using m by simp
    moreover have "round_half_even y \<le> \<lfloor>y\<rfloor> + 1"
      unfolding round_half_even_def Let_def by auto
    moreover have "\<lfloor>z\<rfloor> \<le> round_half_even z"
      unfolding round_half_even_def Let_def by auto
    ultimately show ?thesis by linarith
  qed
qed

lemma round_half_even_ge: "of_int n \<le> y \<Longrightarrow> n \<le> round_half_even y"
  using round_half_even_mono[of "of_int n" y] by simp

lemma round_half_even_le: "y \<le> of_int n \<Longrightarrow> round_half_even y \<le> n"
  using round_half_even_mono[of y "of_int n"] by simp


subsection \<open>rounding to binary64\<close>

lemma quantum_pos [simp]: "0 < quantum x"
  by (simp add: quantum_def)

lemma quantum_nonneg [simp]: "0 \<le> quantum x"
  by (rule less_imp_le) (rule quantum_pos)

lemma quantum_nonzero [simp]: "quantum x \<noteq> 0"
  by (metis quantum_pos less_irrefl)

lemma rtb_unfold:
  "x \<noteq> 0 \<Longrightarrow> round_to_binary64 x = of_int (round_half_even (x / quantum x)) * quantum x"
  by (simp add: round_to_binary64_def)

lemma div_quantum_mono: "a \<le> b \<Longrightarrow> a / quantum x \<le> b / quantum x"
  by (rule divide_right_mono) simp_all

lemma rtb_nonneg: "0 \<le> x \<Longrightarrow> 0 \<le> round_to_binary64 x"
proof -
  assume x: "0 \<le> x"
  have "of_int 0 \<le> x / quantum x" using x by (simp add: zero_le_divide_iff)
  then have "0 \<le> round_half_even (x / quantum x)" by (rule round_half_even_ge)
  then show ?thesis by (simp add: round_to_binary64_def)
qed

lemma fexp_ge: "0 < x \<Longrightarrow> ilog2 x \<le> fexp x"
  by (simp add: fexp_def)

lemma rtb_upper:
  assumes "0 < x"
  shows "round_to_binary64 x \<le> 2 powi (fexp x + 1)"
proof -
  have "x < 2 powi (ilog2 x + 1)" using assms by (rule ilog2_bounds)
  also have "\<dots> \<le> 2 powi (fexp x + 1)" using fexp_ge[OF assms] by (intro powi2_mono) simp
  finally have "x / quantum x \<le> 2 powi (fexp x + 1) / quantum x"
    by (intro div_quantum_mono) simp
  also have "\<dots> = of_int (2 ^ 53)"
    by (simp add: quantum_def power_int_diff power_int_add)
  finally have "round_half_even (x / quantum x) \<le> 2 ^ 53" by (rule round_half_even_le)
  then have "(of_int (round_half_even (x / quantum x)) :: rat) \<le> of_int (2 ^ 53)"
    by (simp only: of_int_le_iff)
  then have "of_int (round_half_even (x / quantum x)) * quantum x \<le> of_int (2 ^ 53) * quantum x"
    by (rule mult_right_mono) simp
  also have "\<dots> = 2 powi (fexp x + 1)"
    by (simp add: quantum_def power_int_diff power_int_add)
  finally show ?thesis using assms by (simp only: rtb_unfold)
qed

lemma rtb_lower:
  assumes "0 < x" and "- 1022 \<le> ilog2 x"
  shows "2 powi (ilog2 x) \<le> round_to_binary64 x"
proof -
  have fe: "fexp x = ilog2 x" using assms by (simp add: fexp_def)
  have "2 powi (ilog2 x) \<le> x" using assms(1) by (rule ilog2_bounds)
  then have "2 powi (ilog2 x) / quantum x \<le> x / quantum x"
    by (rule div_quantum_mono)
  moreover have "2 powi (ilog2 x) / quantum x = of_int (2 ^ 52)"
    by (simp add: quantum_def fe power_int_diff)
  ultimately have "2 ^ 52 \<le> round_half_even (x / quantum x)"
    using round_half_even_ge[of "2 ^ 52" "x / quantum x"] by simp
  then have "(of_int (2 ^ 52) :: rat) \<le> of_int (round_half_even (x / quantum x))"
    by (simp only: of_int_le_iff)
  then have "of_int (2 ^ 52) * quantum x \<le> of_int (round_half_even (x / quantum x)) * quantum x"
    by (rule mult_right_mono) simp
  moreover have "of_int (2 ^ 52) * quantum x = 2 powi (ilog2 x)"
    by (simp add: quantum_def fe power_int_diff)
  moreover have "round_to_binary64 x = of_int (round_half_even (x / quantum x)) * quantum x"
    using assms(1) by (simp only: rtb_unfold)
  ultimately show ?thesis by (simp only:)
qed

lemma rtb_mono:
  assumes "0 \<le> x" and "x \<le> y"
  shows "round_to_binary64 x \<le> round_to_binary64 y"
proof (cases "x = 0")
  case True
  then show ?thesis using rtb_nonneg[of y] assms by (simp add: round_to_binary64_def)
next
  case False
  then have x: "0 < x" and y: "0 < y" using assms by auto
  have le: "fexp x \<le> fexp y"
    using ilog2_mono[OF x assms(2)] x y by (simp add: fexp_def)
  show ?thesis
  proof (cases "fexp x = fexp y")
    case True
    then have q: "quantum x = quantum y" by (simp add: quantum_def)
    have "x / quantum y \<le> y / quantum y" using assms(2) by (rule div_quantum_mono)
    then have "round_half_even (x / quantum y) \<le> round_half_even (y / quantum y)"
      by (rule round_half_even_mono)
    then have "(of_int (round_half_even (x / quantum y)) :: rat) \<le> of_int (round_half_even (y / quantum y))"
      by (simp only: of_int_le_iff)
    then have "of_int (round_half_even (x / quantum y)) * quantum y
                 \<le> of_int (round_half_even (y / quantum y)) * quantum y"
      by (rule mult_right_mono) simp
    then show ?thesis using x y q by (simp add: round_to_binary64_def)
  next
    case False
    then have lt: "fexp x + 1 \<le> fexp y" using le by simp
    then have "- 1022 < fexp y" by (simp add: fexp_def)
    then have iy: "fexp y = ilog2 y" "- 1022 \<le> ilog2 y" using y by (auto simp: fexp_def max_def split: if_splits)
    have "round_to_binary64 x \<le> 2 powi (fexp x + 1)" using x by (rule rtb_upper)
    also have "\<dots> \<le> 2 powi (ilog2 y)" using lt iy by (intro powi2_mono) simp
    also have "\<dots> \<le> round_to_binary64 y" using y iy(2) by (rule rtb_lower)
    finally show ?thesis .
  qed
qed

lemma rtb_exact:
  assumes "0 < m" and "m < 2 ^ 53" and "- 1074 \<le> k"
  shows "round_to_binary64 (of_int m * 2 powi k) = of_int m * 2 powi k"
proof -
  let ?x = "of_int m * 2 powi k :: rat"
  have x: "0 < ?x" using assms(1) by (simp add: zero_less_mult_iff)
  have "(of_int m :: rat) < of_int (2 ^ 53)" using assms(2) by (simp only: of_int_less_iff)
  then have "?x < of_int (2 ^ 53) * 2 powi k" by (simp add: mult_strict_right_mono)
  also have "\<dots> = 2 powi (53 + k)" by (simp add: power_int_add)
  finally have "2 powi (ilog2 ?x) < (2::rat) powi (53 + k)"
    using ilog2_bounds(1)[OF x] by linarith
  then have "ilog2 ?x < 53 + k" by (rule powi2_less_imp)
  then have fe: "fexp ?x - 52 \<le> k" using assms(3) x by (simp add: fexp_def)
  define j where "j = nat (k - (fexp ?x - 52))"
  have k: "k = (fexp ?x - 52) + int j" using fe by (simp add: j_def)
  have "2 powi k = quantum ?x * 2 ^ j"
    by (subst k, simp add: quantum_def power_int_add)
  then have "?x / quantum ?x = of_int m * (quantum ?x * 2 ^ j) / quantum ?x"
    by (simp only:)
  also have "\<dots> = of_int (m * 2 ^ j)"
    by simp
  finally have "round_half_even (?x / quantum ?x) = m * 2 ^ j"
    by (simp only: round_half_even_of_int)
  then have "round_to_binary64 ?x = of_int (m * 2 ^ j) * quantum ?x"
    using x by (simp only: rtb_unfold)
  also have "\<dots> = of_int m * (quantum ?x * 2 ^ j)" by simp
  also have "\<dots> = ?x" using \<open>2 powi k = quantum ?x * 2 ^ j\<close> by simp
  finally show ?thesis .
qed

lemma rtb_of_int:
  assumes "0 \<le> n" and "n < 2 ^ 53"
  shows "round_to_binary64 (of_int n) = of_int n"
proof (cases "n = 0")
  case True
  then show ?thesis by (simp add: round_to_binary64_def)
next
  case False
  then show ?thesis using rtb_exact[of n 0] assms by simp
qed

lemma rtb_error:
  assumes "2 powi (- 1022) \<le> x"
  shows "\<bar>round_to_binary64 x - x\<bar> \<le> x * 2 powi (- 53)"
proof -
  have x: "0 < x" using assms by (rule less_le_trans[rotated]) simp
  have "2 powi (- 1022) < (2::rat) powi (ilog2 x + 1)"
    using assms ilog2_bounds(2)[OF x] by linarith
  then have "- 1022 < ilog2 x + 1" by (rule powi2_less_imp)
  then have fe: "fexp x = ilog2 x" using x by (simp add: fexp_def)
  have "\<bar>of_int (round_half_even (x / quantum x)) - x / quantum x\<bar> \<le> 1 / 2"
    by (rule round_half_even_error)
  then have "\<bar>of_int (round_half_even (x / quantum x)) - x / quantum x\<bar> * quantum x \<le> 1 / 2 * quantum x"
    by (rule mult_right_mono) simp
  moreover have "\<bar>of_int (round_half_even (x / quantum x)) - x / quantum x\<bar> * quantum x
        = \<bar>round_to_binary64 x - x\<bar>"
  proof -
    have "\<bar>of_int (round_half_even (x / quantum x)) - x / quantum x\<bar> * quantum x
        = \<bar>(of_int (round_half_even (x / quantum x)) - x / quantum x) * quantum x\<bar>"
      by (simp add: abs_mult)
    also have "(of_int (round_half_even (x / quantum x)) - x / quantum x) * quantum x
        = round_to_binary64 x - x"
      using x by (simp add: round_to_binary64_def left_diff_distrib)
    finally show ?thesis .
  qed
  moreover have "1 / 2 * quantum x = 2 powi (ilog2 x) * 2 powi (- 53)"
    by (simp add: quantum_def fe power_int_diff power_int_minus)
  moreover have "2 powi (ilog2 x) * 2 powi (- 53) \<le> x * 2 powi (- 53)"
    using ilog2_bounds(1)[OF x] by (intro mult_right_mono) simp_all
  ultimately show ?thesis by linarith
qed


subsection \<open>float64 values of this program\<close>

lemma rtb_pow2: "- 1074 \<le> k \<Longrightarrow> round_to_binary64 (2 powi k) = 2 powi k"
  using rtb_exact[of 1 k] by simp

lemma rtb_one [simp]: "round_to_binary64 1 = 1"
  using rtb_of_int[of 1] by simp

lemma rtb_zero [simp]: "round_to_binary64 0 = 0"
  by (simp add: round_to_binary64_def)

lemma round64_finite:
  assumes "0 \<le> x" and "x \<le> 2 powi 1023"
  shows "round64 x = Finite (round_to_binary64 x)"
proof -
  let ?r = "round_to_binary64 x"
  have r0: "0 \<le> ?r" using assms(1) by (rule rtb_nonneg)
  have "?r \<le> round_to_binary64 (2 powi 1023)" using assms by (rule rtb_mono)
  then have r1: "?r \<le> 2 powi 1023" by (simp only: rtb_pow2)
  have "ilog2 \<bar>?r\<bar> < 1024"
  proof (cases "?r = 0")
    case True
    then show ?thesis by (simp add: ilog2_zero)
  next
    case False
    then have pos: "0 < ?r" using r0 by simp
    have "2 powi (ilog2 ?r) \<le> ?r" using pos by (rule ilog2_bounds)
    also have "?r \<le> 2 powi 1023" by (rule r1)
    also have "\<dots> < 2 powi 1024" by (rule power_int_strict_increasing) simp_all
    finally have "ilog2 ?r < 1024" by (rule powi2_less_imp)
    then show ?thesis using pos by simp
  qed
  then show ?thesis by (simp add: round64_def Let_def)
qed

lemma float64_of_int_finite:
  assumes "0 \<le> n" and "n < 2 ^ 63"
  shows "float64_of_int n = Finite (round_to_binary64 (of_int n))"
proof -
  have "n \<le> 2 ^ 63" using assms(2) by simp
  then have "(of_int n :: rat) \<le> of_int (2 ^ 63)" by (simp only: of_int_le_iff)
  also have "\<dots> = 2 powi 63" by simp
  also have "\<dots> \<le> 2 powi 1023" by (rule powi2_mono) simp
  finally show ?thesis using assms(1) unfolding float64_of_int_def
    by (intro round64_finite) simp_all
qed

lemma float64_of_int_exact:
  assumes "0 \<le> n" and "n < 2 ^ 53"
  shows "float64_of_int n = Finite (of_int n)"
proof -
  have "n < 2 ^ 63" using assms(2) by simp
  then show ?thesis using assms by (simp add: float64_of_int_finite rtb_of_int)
qed

subsection \<open>relative error\<close>

lemma u53_pos: "0 < u53" and u53_less_one: "u53 < 1"
  by (simp_all add: u53_def power_int_minus field_simps)

lemma tiny_le_one: "2 powi (- 1022) \<le> (1::rat)"
  using powi2_mono[of "- 1022" 0] by simp

lemma rtb_rel:
  assumes "2 powi (- 1022) \<le> x"
  shows "x * (1 - u53) \<le> round_to_binary64 x" and "round_to_binary64 x \<le> x * (1 + u53)"
  using rtb_error[OF assms] by (simp_all only: u53_def abs_le_iff algebra_simps) linarith+

lemma rtb_half_int:
  assumes "0 \<le> n" and "n < 2 ^ 16"
  shows "round_to_binary64 (of_int n + 1 / 2) = of_int n + 1 / 2"
proof -
  have "2 * n + 1 < 2 ^ 53" using assms(2) by simp
  then have "round_to_binary64 (of_int (2 * n + 1) * 2 powi (- 1)) = of_int (2 * n + 1) * 2 powi (- 1)"
    using assms(1) by (intro rtb_exact) simp_all
  moreover have "of_int (2 * n + 1) * 2 powi (- 1) = (of_int n + 1 / 2 :: rat)"
    by (simp add: power_int_minus field_simps)
  ultimately show ?thesis by (simp only:)
qed

lemma floor_le_of_half:
  assumes "x \<le> of_int n + 1 / 2"
  shows "\<lfloor>x :: rat\<rfloor> \<le> n"
proof -
  have "of_int \<lfloor>x\<rfloor> \<le> x" by simp
  then have "(of_int \<lfloor>x\<rfloor> :: rat) < of_int n + 1" using assms by linarith
  then have "(of_int \<lfloor>x\<rfloor> :: rat) < of_int (n + 1)" by simp
  then have "\<lfloor>x\<rfloor> < n + 1" by (simp only: of_int_less_iff)
  then show ?thesis by simp
qed

lemma int_conv:
  assumes "0 < n" and "n < 2 ^ 63"
  shows "1 \<le> round_to_binary64 (of_int n)"
    and "round_to_binary64 (of_int n) \<le> 2 powi 63"
    and "of_int n * (1 - u53) \<le> round_to_binary64 (of_int n)"
    and "round_to_binary64 (of_int n) \<le> of_int n * (1 + u53)"
proof -
  have one: "(1::rat) \<le> of_int n" using assms(1) by simp
  have "round_to_binary64 1 \<le> round_to_binary64 (of_int n)"
    using one by (intro rtb_mono) simp_all
  then show "1 \<le> round_to_binary64 (of_int n)" by simp
  have "n \<le> 2 ^ 63" using assms(2) by simp
  then have "(of_int n :: rat) \<le> of_int (2 ^ 63)" by (simp only: of_int_le_iff)
  then have "(of_int n :: rat) \<le> 2 powi 63" by simp
  then have "round_to_binary64 (of_int n) \<le> round_to_binary64 (2 powi 63)"
    using one by (intro rtb_mono) simp_all
  then show "round_to_binary64 (of_int n) \<le> 2 powi 63" by (simp only: rtb_pow2)
  have "2 powi (- 1022) \<le> (of_int n :: rat)" using tiny_le_one one by linarith
  then show "of_int n * (1 - u53) \<le> round_to_binary64 (of_int n)"
    and "round_to_binary64 (of_int n) \<le> of_int n * (1 + u53)"
    by (rule rtb_rel)+
qed


section \<open>The fitted rectangle: proofs\<close>

lemma rtb_pow2_m63: "round_to_binary64 (2 powi (- 63)) = 2 powi (- 63)"
  by (rule rtb_pow2) simp

lemma rtb_pow2_63: "round_to_binary64 (2 powi 63) = 2 powi 63"
  by (rule rtb_pow2) simp

lemma source_aspect:
  fixes srcW srcH :: int
  assumes "0 < srcW" "srcW < 2 ^ 63" "0 < srcH" "srcH < 2 ^ 63"
  shows "\<exists>A. float_div (float64_of_int srcW) (float64_of_int srcH) = Finite A
             \<and> 2 powi (- 63) \<le> A \<and> A \<le> 2 powi 63
             \<and> of_int srcW / of_int srcH * ((1 - u53)\<^sup>2 / (1 + u53)) \<le> A
             \<and> A \<le> of_int srcW / of_int srcH * ((1 + u53)\<^sup>2 / (1 - u53))"
proof -
  let ?S = "round_to_binary64 (of_int srcW)" and ?T = "round_to_binary64 (of_int srcH)"
  let ?n = "of_int srcW :: rat" and ?m = "of_int srcH :: rat"
  note S = int_conv[OF assms(1,2)] and T = int_conv[OF assms(3,4)]
  note u = u53_pos u53_less_one
  have n: "0 < ?n" and m: "0 < ?m" using assms by simp_all
  have Tpos: "0 < ?T" using T(1) by linarith
  have Spos: "0 < ?S" using S(1) by linarith
  let ?q = "?S / ?T"
  have q_lo: "2 powi (- 63) \<le> ?q"
  proof -
    have "1 / 2 powi 63 \<le> ?S / ?T"
      using S(1) T(2) Tpos by (intro frac_le) simp_all
    then show ?thesis by (simp add: power_int_minus field_simps)
  qed
  have q_hi: "?q \<le> 2 powi 63"
  proof -
    have "?S / ?T \<le> 2 powi 63 / 1"
      using S(2) T(1) Spos by (intro frac_le) simp_all
    then show ?thesis by simp
  qed
  have q_fin: "round64 ?q = Finite (round_to_binary64 ?q)"
  proof (rule round64_finite)
    show "0 \<le> ?q" using Spos Tpos by simp
    have "(2::rat) powi 63 \<le> 2 powi 1023" by (rule powi2_mono) simp
    then show "?q \<le> 2 powi 1023" using q_hi by linarith
  qed
  have fd: "float_div (float64_of_int srcW) (float64_of_int srcH) = Finite (round_to_binary64 ?q)"
    using assms Tpos q_fin by (simp add: float64_of_int_finite)
  have qpos: "(0::rat) \<le> 2 powi (- 63)" "(0::rat) \<le> ?q" using Spos Tpos by simp_all
  have A_lo: "2 powi (- 63) \<le> round_to_binary64 ?q"
    using rtb_mono[OF qpos(1) q_lo] by (simp only: rtb_pow2_m63)
  have A_hi: "round_to_binary64 ?q \<le> 2 powi 63"
    using rtb_mono[OF qpos(2) q_hi] by (simp only: rtb_pow2_63)
  have "(2::rat) powi (- 1022) \<le> 2 powi (- 63)" by (rule powi2_mono) simp
  then have qtiny: "2 powi (- 1022) \<le> ?q" using q_lo by (rule order_trans)
  note R = rtb_rel[OF qtiny]
  have q_le: "?q \<le> ?n * (1 + u53) / (?m * (1 - u53))"
    using S(4) T(3) m u Spos by (intro frac_le) simp_all
  have q_ge: "?n * (1 - u53) / (?m * (1 + u53)) \<le> ?q"
    using S(3) T(4) n u Tpos Spos by (intro frac_le) simp_all
  have up: "round_to_binary64 ?q \<le> ?n / ?m * ((1 + u53)\<^sup>2 / (1 - u53))"
  proof -
    have "round_to_binary64 ?q \<le> ?q * (1 + u53)" by (rule R(2))
    also have "\<dots> \<le> ?n * (1 + u53) / (?m * (1 - u53)) * (1 + u53)"
      using q_le u by (intro mult_right_mono) simp_all
    also have "\<dots> = ?n / ?m * ((1 + u53)\<^sup>2 / (1 - u53))"
      by (simp add: power2_eq_square)
    finally show ?thesis .
  qed
  have lo: "?n / ?m * ((1 - u53)\<^sup>2 / (1 + u53)) \<le> round_to_binary64 ?q"
  proof -
    have "?n / ?m * ((1 - u53)\<^sup>2 / (1 + u53)) = ?n * (1 - u53) / (?m * (1 + u53)) * (1 - u53)"
      by (simp add: power2_eq_square)
    also have "\<dots> \<le> ?q * (1 - u53)"
      using q_ge u by (intro mult_right_mono) simp_all
    also have "\<dots> \<le> round_to_binary64 ?q" by (rule R(1))
    finally show ?thesis .
  qed
  show ?thesis using fd A_lo A_hi up lo by blast
qed


lemma small_times_u53:
  fixes n :: int
  assumes "n < 2 ^ 16"
  shows "of_int n * u53 \<le> 1 / 4"
proof -
  have "n \<le> 2 ^ 16" using assms by simp
  then have "(of_int n :: rat) \<le> of_int (2 ^ 16)" by (simp only: of_int_le_iff)
  then have "of_int n * u53 \<le> of_int (2 ^ 16) * u53"
    using u53_pos by (intro mult_right_mono) simp_all
  also have "\<dots> \<le> 1 / 4" by (simp add: u53_def power_int_minus)
  finally show ?thesis .
qed

lemma target_aspect:
  fixes W H :: int
  assumes "0 < W" "W < 2 ^ 16" "0 < H" "H < 2 ^ 16"
  shows "float_div (Finite (of_int W)) (Finite (of_int H)) = Finite (round_to_binary64 (of_int W / of_int H))"
    and "of_int W / of_int H * (1 - u53) \<le> round_to_binary64 (of_int W / of_int H)"
    and "round_to_binary64 (of_int W / of_int H) \<le> of_int W / of_int H * (1 + u53)"
proof -
  let ?q = "of_int W / of_int H :: rat"
  have W: "(1::rat) \<le> of_int W" "(of_int W :: rat) \<le> 2 powi 16"
    using assms(1,2) by (simp_all add: of_int_le_numeral_power_cancel_iff[symmetric] del: of_int_le_numeral_power_cancel_iff)
  have H: "(1::rat) \<le> of_int H" "(of_int H :: rat) \<le> 2 powi 16"
    using assms(3,4) by (simp_all add: of_int_le_numeral_power_cancel_iff[symmetric] del: of_int_le_numeral_power_cancel_iff)
  have "1 / 2 powi 16 \<le> ?q" using W(1) H by (intro frac_le) simp_all
  then have lo: "2 powi (- 16) \<le> ?q" by (simp add: power_int_minus field_simps)
  have "?q \<le> 2 powi 16 / 1" using W H(1) by (intro frac_le) simp_all
  then have hi: "?q \<le> 2 powi 16" by simp
  have "(2::rat) powi 16 \<le> 2 powi 1023" by (rule powi2_mono) simp
  then have hi': "?q \<le> 2 powi 1023" using hi by linarith
  have "(2::rat) powi (- 1022) \<le> 2 powi (- 16)" by (rule powi2_mono) simp
  then have tiny: "2 powi (- 1022) \<le> ?q" using lo by (rule order_trans)
  have q0: "0 \<le> ?q" using assms by simp
  have "round64 ?q = Finite (round_to_binary64 ?q)" using q0 hi' by (rule round64_finite)
  then show "float_div (Finite (of_int W)) (Finite (of_int H)) = Finite (round_to_binary64 ?q)"
    using assms(3) by simp
  show "?q * (1 - u53) \<le> round_to_binary64 ?q" and "round_to_binary64 ?q \<le> ?q * (1 + u53)"
    using tiny by (rule rtb_rel)+
qed

lemma by_height_fits:
  fixes W H :: int
  assumes "0 < W" "W < 2 ^ 16" "0 < H" "H < 2 ^ 16"
    and "0 \<le> A" and "A < round_to_binary64 (of_int W / of_int H)"
  shows "round_to_binary64 (A * of_int H) \<le> of_int W + 1 / 2"
proof -
  let ?N = "round_to_binary64 (of_int W / of_int H)"
  have Hpos: "(0::rat) < of_int H" using assms(3) by simp
  have "A * of_int H \<le> ?N * of_int H"
    using assms(6) Hpos by (intro mult_right_mono) simp_all
  also have "\<dots> \<le> of_int W / of_int H * (1 + u53) * of_int H"
    using target_aspect(3)[OF assms(1-4)] Hpos by (intro mult_right_mono) simp_all
  also have "\<dots> = of_int W + of_int W * u53"
    using Hpos by (simp add: field_simps)
  also have "\<dots> \<le> of_int W + 1 / 2"
    using small_times_u53[OF assms(2)] by simp
  finally have le: "A * of_int H \<le> of_int W + 1 / 2" .
  have "0 \<le> A * of_int H" using assms(5) Hpos by simp
  then have "round_to_binary64 (A * of_int H) \<le> round_to_binary64 (of_int W + 1 / 2)"
    using le by (rule rtb_mono)
  also have "\<dots> = of_int W + 1 / 2"
    using assms(1,2) by (intro rtb_half_int) simp_all
  finally show ?thesis .
qed

lemma by_width_fits:
  fixes W H :: int
  assumes "0 < W" "W < 2 ^ 16" "0 < H" "H < 2 ^ 16"
    and "round_to_binary64 (of_int W / of_int H) \<le> A"
  shows "round_to_binary64 (of_int W / A) \<le> of_int H + 1 / 2"
    and "0 < A"
proof -
  let ?N = "round_to_binary64 (of_int W / of_int H)"
  let ?L = "of_int W / of_int H * (1 - u53) :: rat"
  have Hpos: "(0::rat) < of_int H" and Wpos: "(0::rat) < of_int W" using assms(1,3) by simp_all
  have Lpos: "0 < ?L" using Hpos Wpos u53_less_one by simp
  have LN: "?L \<le> ?N" by (rule target_aspect(2)[OF assms(1-4)])
  then have LA: "?L \<le> A" using assms(5) by linarith
  then show Apos: "0 < A" using Lpos by linarith
  have AL: "0 < A * ?L" using Apos Lpos by (rule mult_pos_pos)
  have W0: "(0::rat) \<le> of_int W" using Wpos by simp
  have "of_int W / A \<le> of_int W / ?L"
    using LA W0 AL by (rule divide_left_mono)
  also have "\<dots> = of_int H / (1 - u53)"
    using Hpos Wpos u53_less_one by (simp add: divide_simps)
  also have "\<dots> \<le> of_int H + 1 / 2"
  proof -
    have "of_int H * u53 \<le> 1 / 4" by (rule small_times_u53[OF assms(4)])
    moreover have "u53 \<le> 1 / 2" by (simp add: u53_def power_int_minus)
    ultimately have "of_int H \<le> (of_int H + 1 / 2) * (1 - u53)"
      by (simp add: algebra_simps)
    then show ?thesis using u53_less_one by (simp add: pos_divide_le_eq)
  qed
  finally have le: "of_int W / A \<le> of_int H + 1 / 2" .
  have "0 \<le> of_int W / A" using Wpos Apos by simp
  then have "round_to_binary64 (of_int W / A) \<le> round_to_binary64 (of_int H + 1 / 2)"
    using le by (rule rtb_mono)
  also have "\<dots> = of_int H + 1 / 2"
    using assms(3,4) by (intro rtb_half_int) simp_all
  finally show "round_to_binary64 (of_int W / A) \<le> of_int H + 1 / 2" .
qed


lemma wrap64_id: "- (2 ^ 63) \<le> n \<Longrightarrow> n < 2 ^ 63 \<Longrightarrow> wrap64 n = n"
  by (simp add: wrap64_def)

lemma go_div_two: "0 \<le> a \<Longrightarrow> go_div a 2 = a div 2"
  by (cases "a = 0") (simp_all add: go_div_def)

lemma uint16_range:
  fixes w :: "16 word"
  assumes "w \<noteq> 0"
  shows "0 < uint w" and "uint w < 2 ^ 16"
proof -
  have "uint w \<noteq> 0" using assms by (simp add: uint_0_iff)
  moreover have "0 \<le> uint w" by simp
  ultimately show "0 < uint w" by linarith
  show "uint w < 2 ^ 16" using uint_bounded[of w] by simp
qed

lemma int_of_float64_floor:
  assumes "0 \<le> P" and "\<lfloor>P\<rfloor> < 2 ^ 63"
  shows "int_of_float64 (Finite P) = Some \<lfloor>P\<rfloor>"
proof -
  have "0 \<le> \<lfloor>P\<rfloor>" using assms(1) by simp
  then show ?thesis using assms by (simp add: int_of_float64_def go_trunc_def Let_def)
qed

lemma float64_of_small:
  fixes n :: int
  assumes "0 < n" "n < 2 ^ 16"
  shows "float64_of_int n = Finite (of_int n)"
  using assms by (intro float64_of_int_exact) simp_all

lemma fit_by_height:
  fixes srcW srcH :: int and gw gh :: "16 word"
  assumes A: "float_div (float64_of_int srcW) (float64_of_int srcH) = Finite A"
      "0 \<le> A" "A \<le> 2 powi 63"
    and g: "gw \<noteq> 0" "gh \<noteq> 0"
    and br: "A < round_to_binary64 (of_int (uint gw) / of_int (uint gh))"
  shows "RenderImage_fit srcW srcH gw gh =
           Some \<lparr>fit_width = \<lfloor>round_to_binary64 (A * of_int (uint gh))\<rfloor>, fit_height = uint gh,
                 xOffset = (uint gw - \<lfloor>round_to_binary64 (A * of_int (uint gh))\<rfloor>) div 2, yOffset = 0\<rparr>"
    and "0 \<le> \<lfloor>round_to_binary64 (A * of_int (uint gh))\<rfloor>"
    and "\<lfloor>round_to_binary64 (A * of_int (uint gh))\<rfloor> \<le> uint gw"
proof -
  define W where "W = uint gw"
  define H where "H = uint gh"
  define P where "P = round_to_binary64 (A * of_int H)"
  have W: "0 < W" "W < 2 ^ 16" unfolding W_def using uint16_range[OF g(1)] by simp_all
  have H: "0 < H" "H < 2 ^ 16" unfolding H_def using uint16_range[OF g(2)] by simp_all
  have br': "A < round_to_binary64 (of_int W / of_int H)" unfolding W_def H_def by (rule br)
  have Hr: "(0::rat) < of_int H" using H(1) by simp
  have AH0: "0 \<le> A * of_int H" using A(2) Hr by simp
  have P0: "0 \<le> P" unfolding P_def using AH0 by (rule rtb_nonneg)
  have Ple: "P \<le> of_int W + 1 / 2"
    unfolding P_def using W H A(2) br' by (rule by_height_fits)
  have lo: "0 \<le> \<lfloor>P\<rfloor>" using P0 by simp
  have hi: "\<lfloor>P\<rfloor> \<le> W" using Ple by (rule floor_le_of_half)
  have "H \<le> 2 ^ 16" using H(2) by simp
  then have "(of_int H :: rat) \<le> of_int (2 ^ 16)" by (simp only: of_int_le_iff)
  then have "of_int H \<le> (2::rat) powi 16" by simp
  then have "A * of_int H \<le> 2 powi 63 * 2 powi 16"
    using A(2,3) Hr by (intro mult_mono) simp_all
  also have "\<dots> = 2 powi 79" by (simp add: power_int_add[symmetric])
  also have "\<dots> \<le> 2 powi 1023" by (rule powi2_mono) simp
  finally have "round64 (A * of_int H) = Finite P" unfolding P_def using AH0 by (intro round64_finite)
  then have mul: "float_mul (Finite A) (Finite (of_int H)) = Finite P" by simp
  have W63: "W < 2 ^ 63" using W(2) by simp
  have "\<lfloor>P\<rfloor> < 2 ^ 63" using hi W63 by (rule le_less_trans)
  then have conv: "int_of_float64 (Finite P) = Some \<lfloor>P\<rfloor>" using P0 by (intro int_of_float64_floor)
  have d0: "0 \<le> W - \<lfloor>P\<rfloor>" using hi by simp
  have "W - \<lfloor>P\<rfloor> < 2 ^ 63" using lo W63 by linarith
  then have wr: "wrap64 (W - \<lfloor>P\<rfloor>) = W - \<lfloor>P\<rfloor>" using d0 by (intro wrap64_id) simp_all
  have tgt: "float_div (Finite (of_int W)) (Finite (of_int H)) = Finite (round_to_binary64 (of_int W / of_int H))"
    using W H by (rule target_aspect(1))
  have "RenderImage_fit srcW srcH gw gh =
           Some \<lparr>fit_width = \<lfloor>P\<rfloor>, fit_height = H, xOffset = (W - \<lfloor>P\<rfloor>) div 2, yOffset = 0\<rparr>"
    unfolding RenderImage_fit_def Let_def A(1) W_def[symmetric] H_def[symmetric]
      float64_of_small[OF W] float64_of_small[OF H] tgt
    using br' by (simp only: float_gt.simps if_True mul conv option.case wr go_div_two[OF d0])
  then show "RenderImage_fit srcW srcH gw gh =
           Some \<lparr>fit_width = \<lfloor>round_to_binary64 (A * of_int (uint gh))\<rfloor>, fit_height = uint gh,
                 xOffset = (uint gw - \<lfloor>round_to_binary64 (A * of_int (uint gh))\<rfloor>) div 2, yOffset = 0\<rparr>"
    by (simp only: P_def W_def H_def)
  show "0 \<le> \<lfloor>round_to_binary64 (A * of_int (uint gh))\<rfloor>" using lo by (simp only: P_def W_def H_def)
  show "\<lfloor>round_to_binary64 (A * of_int (uint gh))\<rfloor> \<le> uint gw" using hi by (simp only: P_def W_def H_def)
qed

lemma fit_by_width:
  fixes srcW srcH :: int and gw gh :: "16 word"
  assumes A: "float_div (float64_of_int srcW) (float64_of_int srcH) = Finite A"
    and g: "gw \<noteq> 0" "gh \<noteq> 0"
    and br: "\<not> A < round_to_binary64 (of_int (uint gw) / of_int (uint gh))"
  shows "RenderImage_fit srcW srcH gw gh =
           Some \<lparr>fit_width = uint gw, fit_height = \<lfloor>round_to_binary64 (of_int (uint gw) / A)\<rfloor>,
                 xOffset = 0, yOffset = (uint gh - \<lfloor>round_to_binary64 (of_int (uint gw) / A)\<rfloor>) div 2\<rparr>"
    and "0 \<le> \<lfloor>round_to_binary64 (of_int (uint gw) / A)\<rfloor>"
    and "\<lfloor>round_to_binary64 (of_int (uint gw) / A)\<rfloor> \<le> uint gh"
    and "0 < A"
proof -
  define W where "W = uint gw"
  define H where "H = uint gh"
  define Q where "Q = round_to_binary64 (of_int W / A)"
  have W: "0 < W" "W < 2 ^ 16" unfolding W_def using uint16_range[OF g(1)] by simp_all
  have H: "0 < H" "H < 2 ^ 16" unfolding H_def using uint16_range[OF g(2)] by simp_all
  have "\<not> A < round_to_binary64 (of_int W / of_int H)" unfolding W_def H_def by (rule br)
  then have NA: "round_to_binary64 (of_int W / of_int H) \<le> A" by simp
  note F = by_width_fits[OF W H NA]
  have Wr: "(0::rat) < of_int W" using W(1) by simp
  have WA0: "0 \<le> of_int W / A" using F(2) Wr by simp
  have Q0: "0 \<le> Q" unfolding Q_def using WA0 by (rule rtb_nonneg)
  have lo: "0 \<le> \<lfloor>Q\<rfloor>" using Q0 by simp
  have hi: "\<lfloor>Q\<rfloor> \<le> H" using F(1) unfolding Q_def by (rule floor_le_of_half)
  have "W \<le> 2 ^ 16" using W(2) by simp
  then have "(of_int W :: rat) \<le> of_int (2 ^ 16)" by (simp only: of_int_le_iff)
  then have W16: "of_int W \<le> (2::rat) powi 16" by simp
  have L: "of_int W / of_int H * (1 - u53) \<le> A"
    using target_aspect(2)[OF W H] NA by linarith
  have "H \<le> 2 ^ 16" using H(2) by simp
  then have "(of_int H :: rat) \<le> of_int (2 ^ 16)" by (simp only: of_int_le_iff)
  then have H16: "of_int H \<le> (2::rat) powi 16" by simp
  have fin: "round64 (of_int W / A) = Finite Q"
    unfolding Q_def
  proof (rule round64_finite[OF WA0])
    have Hr: "(0::rat) < of_int H" using H(1) by simp
    have half: "(1::rat) / 2 \<le> 1 - u53" by (simp add: u53_def power_int_minus)
    have "1 / 2 powi 16 * (1 / 2) \<le> of_int W / of_int H * (1 - u53)"
    proof (rule mult_mono)
      show "1 / 2 powi 16 \<le> (of_int W :: rat) / of_int H"
        using H16 Hr W(1) by (intro frac_le) simp_all
      show "(1::rat) / 2 \<le> 1 - u53" by (rule half)
      show "(0::rat) \<le> of_int W / of_int H" using Wr Hr by simp
      show "(0::rat) \<le> 1 / 2" by simp
    qed
    moreover have "1 / 2 powi 16 * (1 / 2) = (1::rat) / 2 powi 17" by simp
    ultimately have Alo: "1 / 2 powi 17 \<le> A" using L by linarith
    have "of_int W / A \<le> 2 powi 16 / (1 / 2 powi 17)"
      using W16 Alo Wr by (intro frac_le) simp_all
    also have "\<dots> = 2 powi 33" by (simp add: power_int_add[symmetric])
    also have "\<dots> \<le> 2 powi 1023" by (rule powi2_mono) simp
    finally show "of_int W / A \<le> 2 powi 1023" .
  qed
  have Anz: "A \<noteq> 0" using F(2) by simp
  have dv: "float_div (Finite (of_int W)) (Finite A) = Finite Q" using fin Anz by simp
  have H63: "H < 2 ^ 63" using H(2) by simp
  have "\<lfloor>Q\<rfloor> < 2 ^ 63" using hi H63 by (rule le_less_trans)
  then have conv: "int_of_float64 (Finite Q) = Some \<lfloor>Q\<rfloor>" using Q0 by (intro int_of_float64_floor)
  have d0: "0 \<le> H - \<lfloor>Q\<rfloor>" using hi by simp
  have "H - \<lfloor>Q\<rfloor> < 2 ^ 63" using lo H63 by linarith
  then have wr: "wrap64 (H - \<lfloor>Q\<rfloor>) = H - \<lfloor>Q\<rfloor>" using d0 by (intro wrap64_id) simp_all
  have tgt: "float_div (Finite (of_int W)) (Finite (of_int H)) = Finite (round_to_binary64 (of_int W / of_int H))"
    using W H by (rule target_aspect(1))
  have nbr: "(A < round_to_binary64 (of_int W / of_int H)) = False" using NA by simp
  have "RenderImage_fit srcW srcH gw gh =
           Some \<lparr>fit_width = W, fit_height = \<lfloor>Q\<rfloor>, xOffset = 0, yOffset = (H - \<lfloor>Q\<rfloor>) div 2\<rparr>"
    unfolding RenderImage_fit_def Let_def A(1) W_def[symmetric] H_def[symmetric]
      float64_of_small[OF W] float64_of_small[OF H] tgt
    by (simp only: float_gt.simps nbr if_False dv conv option.case wr go_div_two[OF d0])
  then show "RenderImage_fit srcW srcH gw gh =
           Some \<lparr>fit_width = uint gw, fit_height = \<lfloor>round_to_binary64 (of_int (uint gw) / A)\<rfloor>,
                 xOffset = 0, yOffset = (uint gh - \<lfloor>round_to_binary64 (of_int (uint gw) / A)\<rfloor>) div 2\<rparr>"
    by (simp only: Q_def W_def H_def)
  show "0 \<le> \<lfloor>round_to_binary64 (of_int (uint gw) / A)\<rfloor>" using lo by (simp only: Q_def W_def H_def)
  show "\<lfloor>round_to_binary64 (of_int (uint gw) / A)\<rfloor> \<le> uint gh" using hi by (simp only: Q_def W_def H_def)
  show "0 < A" by (rule F(2))
qed







text \<open>
  The scenarios of the spec: a 200 by 100 image in a 400 by 100 window is fitted by height
  and centred horizontally; in a 100 by 400 window it is fitted by width and centred
  vertically. A 1 by 49 image in a 100 by 49 window shows the effect of float64 rounding:
  \<open>1 / 49 * 49\<close> is just below 1 in float64, and the fitted width is 0.
\<close>

lemma fit_scenarios:
  "RenderImage_fit 200 100 400 100
     = Some \<lparr>fit_width = 200, fit_height = 100, xOffset = 100, yOffset = 0\<rparr>"
  "RenderImage_fit 200 100 100 400
     = Some \<lparr>fit_width = 100, fit_height = 50, xOffset = 0, yOffset = 175\<rparr>"
  "RenderImage_fit 1 49 100 49
     = Some \<lparr>fit_width = 0, fit_height = 49, xOffset = 50, yOffset = 0\<rparr>"
  by code_simp+




text \<open>
  C8, amended. For all positive source and target dimensions, in the fit-by-height branch
  (the float64 target aspect is strictly greater than the float64 source aspect \<open>A\<close>) the
  fitted width is the float64 product \<open>A * targetHeight\<close> truncated to an integer, and the
  fitted height is the target height; otherwise the fitted height is the float64 quotient
  \<open>targetWidth / A\<close> truncated to an integer, and the fitted width is the target width.
  Both values are non-negative, so the truncation of \<open>int(...)\<close> is the floor.
\<close>

theorem fit_truncates:
  fixes srcW srcH :: int and gw gh :: "16 word"
  assumes "0 < srcW" "srcW < 2 ^ 63" "0 < srcH" "srcH < 2 ^ 63" "gw \<noteq> 0" "gh \<noteq> 0"
  shows "\<exists>A r. float_div (float64_of_int srcW) (float64_of_int srcH) = Finite A \<and> 0 < A
           \<and> RenderImage_fit srcW srcH gw gh = Some r
           \<and> (if float_gt (float_div (float64_of_int (uint gw)) (float64_of_int (uint gh))) (Finite A)
               then fit_width r = \<lfloor>round_to_binary64 (A * of_int (uint gh))\<rfloor> \<and> fit_height r = uint gh
               else fit_height r = \<lfloor>round_to_binary64 (of_int (uint gw) / A)\<rfloor> \<and> fit_width r = uint gw)"
proof -
  obtain A where A: "float_div (float64_of_int srcW) (float64_of_int srcH) = Finite A"
      "2 powi (- 63) \<le> A" "A \<le> 2 powi 63"
    using source_aspect[OF assms(1-4)] by blast
  have A0: "0 < A" using A(2) powi2_pos[of "- 63"] by linarith
  note W = uint16_range[OF assms(5)] and H = uint16_range[OF assms(6)]
  have tgt: "float_div (float64_of_int (uint gw)) (float64_of_int (uint gh))
               = Finite (round_to_binary64 (of_int (uint gw) / of_int (uint gh)))"
    using target_aspect(1)[OF W H] by (simp only: float64_of_small[OF W] float64_of_small[OF H])
  show ?thesis
  proof (cases "A < round_to_binary64 (of_int (uint gw) / of_int (uint gh))")
    case True
    note F = fit_by_height[OF A(1) less_imp_le[OF A0] A(3) assms(5,6) True]
    show ?thesis
      apply (rule exI[where x = A])
      apply (rule exI[where x = "\<lparr>fit_width = \<lfloor>round_to_binary64 (A * of_int (uint gh))\<rfloor>,
          fit_height = uint gh,
          xOffset = (uint gw - \<lfloor>round_to_binary64 (A * of_int (uint gh))\<rfloor>) div 2, yOffset = 0\<rparr>"])
      using A(1) A0 F(1) True by (simp add: tgt)
  next
    case False
    note F = fit_by_width[OF A(1) assms(5,6) False]
    show ?thesis
      apply (rule exI[where x = A])
      apply (rule exI[where x = "\<lparr>fit_width = uint gw,
          fit_height = \<lfloor>round_to_binary64 (of_int (uint gw) / A)\<rfloor>,
          xOffset = 0, yOffset = (uint gh - \<lfloor>round_to_binary64 (of_int (uint gw) / A)\<rfloor>) div 2\<rparr>"])
      using A(1) A0 F(1) False by (simp add: tgt)
  qed
qed

theorem fit_truncates_witness:
  "(0::int) < 3 \<and> (3::int) < 2 ^ 63 \<and> (0::int) < 4 \<and> (10 :: 16 word) \<noteq> 0 \<and> (5 :: 16 word) \<noteq> 0
   \<and> (\<exists>A r. float_div (float64_of_int 3) (float64_of_int 4) = Finite A \<and> 0 < A
           \<and> RenderImage_fit 3 4 10 5 = Some r
           \<and> (if float_gt (float_div (float64_of_int (uint (10 :: 16 word))) (float64_of_int (uint (5 :: 16 word)))) (Finite A)
               then fit_width r = \<lfloor>round_to_binary64 (A * of_int (uint (5 :: 16 word)))\<rfloor> \<and> fit_height r = uint (5 :: 16 word)
               else fit_height r = \<lfloor>round_to_binary64 (of_int (uint (10 :: 16 word)) / A)\<rfloor> \<and> fit_width r = uint (10 :: 16 word)))"
  using fit_truncates[of 3 4 10 5] by simp

text \<open>
  C8, as the claim states it, fails in both branches. A 3 by 4 image in a 10 by 5 window
  is fitted by height: \<open>a * targetHeight = 3.75\<close>, the nearest integer is 4, the fitted
  width is 3. A 4 by 1 image in a 7 by 10 window is fitted by width: \<open>targetWidth / a = 1.75\<close>,
  the nearest integer is 2, the fitted height is 1. All the values involved are exact in
  float64.
\<close>

theorem fit_rounding_counterexample:
  "float_gt (float_div (float64_of_int 10) (float64_of_int 5)) (float_div (float64_of_int 3) (float64_of_int 4))
   \<and> map_option fit_width (RenderImage_fit 3 4 10 5) = Some 3
   \<and> round ((3 / 4 :: rat) * 5) = 4
   \<and> \<not> float_gt (float_div (float64_of_int 7) (float64_of_int 10)) (float_div (float64_of_int 4) (float64_of_int 1))
   \<and> map_option fit_height (RenderImage_fit 4 1 7 10) = Some 1
   \<and> round (7 / (4 / 1 :: rat)) = 2"
  by code_simp


section \<open>The alpha mask: proofs\<close>

lemma rtb_of_int_floor_le:
  fixes x :: rat
  assumes "0 \<le> x" and "x \<le> 255"
  shows "\<lfloor>x\<rfloor> \<le> \<lfloor>round_to_binary64 x\<rfloor>" and "\<lfloor>round_to_binary64 x\<rfloor> \<le> \<lceil>x\<rceil>"
    and "0 \<le> \<lfloor>round_to_binary64 x\<rfloor>" and "\<lfloor>round_to_binary64 x\<rfloor> \<le> 255"
proof -
  have f0: "0 \<le> \<lfloor>x\<rfloor>" using assms(1) by simp
  have "\<lfloor>x\<rfloor> \<le> 255" using assms(2) by (simp add: floor_le_iff)
  then have f1: "\<lfloor>x\<rfloor> < 2 ^ 53" by simp
  have c0: "0 \<le> \<lceil>x\<rceil>" using assms(1) by (simp add: le_ceiling_iff)
  have "\<lceil>x\<rceil> \<le> 255" using assms(2) by (simp add: ceiling_le_iff)
  then have c1: "\<lceil>x\<rceil> < 2 ^ 53" by simp
  have "round_to_binary64 (of_int \<lfloor>x\<rfloor>) \<le> round_to_binary64 x"
    using f0 by (intro rtb_mono) simp_all
  then have "of_int \<lfloor>x\<rfloor> \<le> round_to_binary64 x"
    by (simp only: rtb_of_int[OF f0 f1])
  then show "\<lfloor>x\<rfloor> \<le> \<lfloor>round_to_binary64 x\<rfloor>" by (simp only: le_floor_iff)
  have "round_to_binary64 x \<le> round_to_binary64 (of_int \<lceil>x\<rceil>)"
    using assms(1) by (intro rtb_mono) simp_all
  then have le: "round_to_binary64 x \<le> of_int \<lceil>x\<rceil>"
    by (simp only: rtb_of_int[OF c0 c1])
  have "of_int \<lfloor>round_to_binary64 x\<rfloor> \<le> round_to_binary64 x" by simp
  then have "(of_int \<lfloor>round_to_binary64 x\<rfloor> :: rat) \<le> of_int \<lceil>x\<rceil>" using le by (rule order_trans)
  then show up: "\<lfloor>round_to_binary64 x\<rfloor> \<le> \<lceil>x\<rceil>" by (simp only: of_int_le_iff)
  show "0 \<le> \<lfloor>round_to_binary64 x\<rfloor>" using rtb_nonneg[OF assms(1)] by simp
  show "\<lfloor>round_to_binary64 x\<rfloor> \<le> 255" using up \<open>\<lceil>x\<rceil> \<le> 255\<close> by (rule order_trans)
qed

lemma masked_alpha_opaque: "masked_alpha 255 m = m"
  by (simp add: masked_alpha_def)

text \<open>
  C3, amended. For every opacity value in [0,1] the alpha of the uniform mask, by which
  the render pass multiplies the alpha of every output pixel, is the float64 product
  \<open>255 * opacity\<close> truncated to an integer, not rounded to nearest: it lies between the
  floor and the ceiling of the exact product, and the ceiling is reached only when the
  float64 product itself rounds up to that integer. The output alpha of an originally
  opaque pixel is this mask alpha.
\<close>

theorem mask_alpha_truncates:
  assumes "0 \<le> q" and "q \<le> 1"
  shows "\<exists>a. mask_alpha (Finite q) = Some a
           \<and> uint a = \<lfloor>round_to_binary64 (255 * q)\<rfloor>
           \<and> \<lfloor>255 * q\<rfloor> \<le> uint a \<and> uint a \<le> \<lceil>255 * q\<rceil>
           \<and> masked_alpha 255 a = a"
proof -
  let ?x = "255 * q"
  let ?t = "\<lfloor>round_to_binary64 ?x\<rfloor>"
  have x: "0 \<le> ?x" "?x \<le> 255" using assms by simp_all
  note B = rtb_of_int_floor_le[OF x]
  have "(2::rat) powi 8 \<le> 2 powi 1023" by (rule powi2_mono) simp
  moreover have "?x \<le> 2 powi 8" using x(2) by simp
  ultimately have "?x \<le> 2 powi 1023" by (rule order_trans[rotated])
  then have fin: "round64 ?x = Finite (round_to_binary64 ?x)" using x(1) by (intro round64_finite)
  have r0: "0 \<le> round_to_binary64 ?x" using x(1) by (rule rtb_nonneg)
  have tr: "go_trunc (round_to_binary64 ?x) = ?t" using r0 by (simp add: go_trunc_def)
  have m: "mask_alpha (Finite q) = Some (word_of_int ?t)"
    unfolding mask_alpha_def float_mul.simps fin uint8_of_float64_def float64.case Let_def tr
    using B(3,4) by simp
  have "?t < 2 ^ 8" using B(4) by simp
  then have u: "uint (word_of_int ?t :: 8 word) = ?t"
    using B(3) by (simp add: uint_word_of_int take_bit_int_eq_self)
  show ?thesis
    using m u B(1,2) masked_alpha_opaque[of "word_of_int ?t"]
    by (intro exI[where x = "word_of_int ?t"]) (simp only: simp_thms)
qed

theorem mask_alpha_truncates_witness:
  "(0::rat) \<le> 1 / 4 \<and> (1 / 4 :: rat) \<le> 1
   \<and> (\<exists>a. mask_alpha (Finite (1 / 4)) = Some a \<and> uint a = \<lfloor>round_to_binary64 (255 * (1 / 4))\<rfloor>
          \<and> \<lfloor>255 * (1 / 4 :: rat)\<rfloor> \<le> uint a \<and> uint a \<le> \<lceil>255 * (1 / 4 :: rat)\<rceil>
          \<and> masked_alpha 255 a = a)"
  using mask_alpha_truncates[of "1 / 4"] by simp

text \<open>
  C3, as the claim states it, fails at its own example: with opacity 0.25 the mask alpha is
  63, and so is the output alpha of an originally opaque pixel, while
  \<open>round(255 * 0.25) = 64\<close>.
\<close>

theorem mask_alpha_counterexample:
  "mask_alpha (Finite (1 / 4)) = Some 63 \<and> round (255 * (1 / 4) :: rat) = 64
   \<and> mask_alpha (Finite (1 / 4)) \<noteq> Some (word_of_int (round (255 * (1 / 4) :: rat)))
   \<and> map_option (masked_alpha 255) (mask_alpha (Finite (1 / 4))) = Some 63"
  by code_simp

section \<open>Pixel packing: proofs\<close>

lemma byte_of_widen16: "(ucast (widen16 c) :: 8 word) = c"
  unfolding widen16_def by (rule bit_word_eqI) (auto simp: bit_simps)

lemma pack_pixel_bytes: "pack_pixel c = [chan_B c, chan_G c, chan_R c, chan_A c]"
  by (simp add: pack_pixel_def RGBA_method_def byte_of_widen16)

lemma length_pack_pixel: "length (pack_pixel c) = 4"
  by (simp add: pack_pixel_bytes)

lemma concat_fixed_length:
  "\<forall>i < n. length (f i) = k \<Longrightarrow> length (concat (map f [0..<n])) = n * k"
  by (induction n) auto

lemma drop_concat_fixed:
  assumes "\<forall>i < n. length (f i) = k" and "j < n"
  shows "take k (drop (j * k) (concat (map f [0..<n]))) = f j"
  using assms
proof (induction n)
  case 0
  then show ?case by simp
next
  case (Suc n)
  have len: "length (concat (map f [0..<n])) = n * k"
    using Suc.prems(1) by (simp add: concat_fixed_length)
  show ?case
  proof (cases "j < n")
    case True
    have "take k (drop (j * k) (concat (map f [0..<n]))) = f j"
      using Suc.IH Suc.prems(1) True by simp
    moreover have "j * k + k \<le> n * k"
      using True by (metis Suc_leI mult_Suc mult_le_mono1 add.commute)
    ultimately show ?thesis
      using len by (simp add: take_drop)
  next
    case False
    then have "j = n" using Suc.prems(2) by simp
    then show ?thesis using len Suc.prems(1) by simp
  qed
qed

lemma length_pack_row: "length (pack_row img w y) = w * 4"
  unfolding pack_row_def by (rule concat_fixed_length) (simp add: length_pack_pixel)

lemma length_pack_image: "length (pack_image img w h) = h * (w * 4)"
  unfolding pack_image_def by (rule concat_fixed_length) (simp add: length_pack_row)

lemma bytes_at_pack_image:
  assumes "x < w" and "y < h"
  shows "bytes_at (pack_image img w h) w x y = pack_pixel (img x y)"
proof -
  have row: "take (w * 4) (drop (y * (w * 4)) (pack_image img w h)) = pack_row img w y"
    unfolding pack_image_def
    by (rule drop_concat_fixed) (use assms in \<open>simp_all add: length_pack_row\<close>)
  have px: "take 4 (drop (x * 4) (pack_row img w y)) = pack_pixel (img x y)"
    unfolding pack_row_def
    by (rule drop_concat_fixed [where f = "\<lambda>x. pack_pixel (img x y)"])
       (use assms in \<open>simp_all add: length_pack_pixel\<close>)
  have "x * 4 + 4 \<le> w * 4" using assms by simp
  then have "take 4 (drop (x * 4) (take (w * 4) (drop (y * (w * 4)) (pack_image img w h))))
           = take 4 (drop (x * 4 + y * (w * 4)) (pack_image img w h))"
    by (simp add: drop_take min_def)
  with row px show ?thesis
    by (simp add: bytes_at_def algebra_simps)
qed

text \<open>
  C5. Every pixel of the frame is emitted as its blue, green, red and alpha bytes, in this
  order; the pixel at \<open>(x, y)\<close> of a \<open>width\<close> by \<open>height\<close> frame occupies the four bytes at
  offset \<open>4 * (y * width + x)\<close> of the buffer, whose length is \<open>4 * width * height\<close>; and
  reading four packed bytes back as blue, green, red, alpha recovers the pixel's 8-bit
  red, green, blue and alpha values.
\<close>

theorem pack_bgra_roundtrip:
  "pack_pixel c = [chan_B c, chan_G c, chan_R c, chan_A c]
   \<and> unpack_bgra (pack_pixel c) = Some c
   \<and> length (pack_image img w h) = 4 * w * h
   \<and> (x < w \<and> y < h \<longrightarrow>
        bytes_at (pack_image img w h) w x y
          = [chan_B (img x y), chan_G (img x y), chan_R (img x y), chan_A (img x y)]
        \<and> unpack_bgra (bytes_at (pack_image img w h) w x y) = Some (img x y))"
proof -
  have u: "unpack_bgra (pack_pixel p) = Some p" for p
    by (simp add: pack_pixel_bytes unpack_bgra_def)
  show ?thesis
    using u by (auto simp: bytes_at_pack_image length_pack_image pack_pixel_bytes)
qed

theorem pack_bgra_roundtrip_witness:
  "pack_pixel \<lparr>chan_R = 1, chan_G = 2, chan_B = 3, chan_A = 255\<rparr> = [3, 2, 1, 255]
   \<and> unpack_bgra [3, 2, 1, 255] = Some \<lparr>chan_R = 1, chan_G = 2, chan_B = 3, chan_A = 255\<rparr>
   \<and> (1::nat) < 2 \<and> (0::nat) < 1
   \<and> bytes_at (pack_image (\<lambda>x y. \<lparr>chan_R = of_nat x, chan_G = 7, chan_B = 9, chan_A = 255\<rparr>) 2 1) 2 1 0
       = [9, 7, 1, 255]"
  using pack_bgra_roundtrip [of "\<lparr>chan_R = 1, chan_G = 2, chan_B = 3, chan_A = 255\<rparr>"
      "\<lambda>x y. \<lparr>chan_R = of_nat x, chan_G = 7, chan_B = 9, chan_A = 255\<rparr>" 2 1 1 0]
  by (simp add: unpack_bgra_def)


section \<open>The shared-memory transfer: proofs\<close>

lemmas [simp del] = decimal.simps

lemma transfer_result:
  "fst (transfer env nbytes)
     = steps_result (shmget_err env) (shmat_err env) (shmat_len env) (newsegid_err env)
         (xattach_err env) (putimage_err env) nbytes"
  by (simp add: transfer_def transfer_body_def steps_result_def Let_def split: option.splits)

lemma transfer_trace:
  "snd (transfer env nbytes)
     = takeWhile is_setup_call (snd (transfer env nbytes))
       @ concat (map (cleanup_of env) (rev (completed_setup env nbytes)))"
  by (simp add: transfer_def transfer_body_def completed_setup_def run_deferred_def cleanup_of_def
      is_setup_call_def Let_def split: option.splits)

lemma transfer_success_iff:
  "fst (transfer env nbytes) = None \<longleftrightarrow>
     shmget_err env = None \<and> shmat_err env = None \<and> nbytes \<le> shmat_len env
     \<and> newsegid_err env = None \<and> xattach_err env = None \<and> putimage_err env = None"
  by (auto simp: transfer_def transfer_body_def Let_def split: option.splits)

text \<open>
  C4. Whatever the outcome of the transfer (success, or failure at segment creation,
  process attach, byte copy, server attach or put-image):
  \<^item> the trace consists of the setup and transfer calls, followed by the cleanups of the
    setup steps that completed, in reverse order of setup (server detach, process detach,
    segment removal), each failing cleanup followed by its log line;
  \<^item> the returned result is the one the five transfer steps decide (\<open>steps_result\<close>): it
    is the same whatever the three cleanups return.
\<close>

theorem transfer_cleanup:
  "snd (transfer env nbytes)
     = takeWhile is_setup_call (snd (transfer env nbytes))
       @ concat (map (cleanup_of env) (rev (completed_setup env nbytes)))
   \<and> fst (transfer env nbytes)
     = steps_result (shmget_err env) (shmat_err env) (shmat_len env) (newsegid_err env)
         (xattach_err env) (putimage_err env) nbytes
   \<and> fst (transfer (env\<lparr>xdetach_err := a, shmdt_err := b, rmid_err := c\<rparr>) nbytes)
     = fst (transfer env nbytes)
   \<and> completed_setup (env\<lparr>xdetach_err := a, shmdt_err := b, rmid_err := c\<rparr>) nbytes
     = completed_setup env nbytes"
  using transfer_trace[of env nbytes]
  by (simp add: transfer_result completed_setup_def)

theorem transfer_cleanup_witness:
  "transfer \<lparr>shmget_err = None, shmat_err = None, shmat_len = 16, newsegid_err = None,
             xattach_err = None, putimage_err = Some ''BadShmSeg'',
             xdetach_err = Some ''BadShmSeg'', shmdt_err = None, rmid_err = None\<rparr> 16
     = (Some ''put image: BadShmSeg'',
        [SysvShmGet 16, SysvShmAttach, CopyBytes, NewSegId, ShmAttach, ShmPutImage,
         ShmDetach, Println ''detach from shared memory (X): BadShmSeg'',
         SysvShmDetach, SysvShmCtlRmid])
   \<and> fst (transfer \<lparr>shmget_err = None, shmat_err = None, shmat_len = 16, newsegid_err = None,
             xattach_err = None, putimage_err = Some ''BadShmSeg'',
             xdetach_err = None, shmdt_err = Some ''EINVAL'', rmid_err = Some ''EPERM''\<rparr> 16)
     = Some ''put image: BadShmSeg''"
proof -
  let ?env = "\<lparr>shmget_err = None, shmat_err = None, shmat_len = 16, newsegid_err = None,
             xattach_err = None, putimage_err = Some ''BadShmSeg'',
             xdetach_err = Some ''BadShmSeg'', shmdt_err = None, rmid_err = None\<rparr>"
  have pre: "takeWhile is_setup_call (snd (transfer ?env 16))
      = [SysvShmGet 16, SysvShmAttach, CopyBytes, NewSegId, ShmAttach, ShmPutImage]"
    by (simp add: transfer_def transfer_body_def run_deferred_def is_setup_call_def)
  note T = transfer_cleanup[where env = ?env and nbytes = 16 and a = None
      and b = "Some ''EINVAL''" and c = "Some ''EPERM''"]
  have tr: "snd (transfer ?env 16)
      = takeWhile is_setup_call (snd (transfer ?env 16))
        @ concat (map (cleanup_of ?env) (rev (completed_setup ?env 16)))"
    using T by (rule conjunct1)
  have "snd (transfer ?env 16)
      = [SysvShmGet 16, SysvShmAttach, CopyBytes, NewSegId, ShmAttach, ShmPutImage,
         ShmDetach, Println ''detach from shared memory (X): BadShmSeg'',
         SysvShmDetach, SysvShmCtlRmid]"
    by (subst tr) (simp add: pre completed_setup_def cleanup_of_def)
  moreover have res: "fst (transfer ?env 16) = Some ''put image: BadShmSeg''"
    using T by (simp add: steps_result_def)
  moreover have "fst (transfer (?env\<lparr>xdetach_err := None, shmdt_err := Some ''EINVAL'',
        rmid_err := Some ''EPERM''\<rparr>) 16) = fst (transfer ?env 16)"
    using T by blast
  ultimately show ?thesis by (simp add: prod_eq_iff)
qed

section \<open>The event loop: proofs\<close>

lemma click_ratio:
  fixes x w :: int
  assumes "0 \<le> x" and "x \<le> w" and "0 < w" and "w < 2 ^ 63"
  shows "\<exists>q. float_div (float64_of_int x) (float64_of_int w) = Finite q \<and> 0 \<le> q \<and> q \<le> 1"
proof -
  let ?X = "round_to_binary64 (of_int x)" and ?W = "round_to_binary64 (of_int w)"
  have x63: "x < 2 ^ 63" using assms(2,4) by simp
  have fx: "float64_of_int x = Finite ?X" using assms(1) x63 by (rule float64_of_int_finite)
  have fw: "float64_of_int w = Finite ?W" using assms(3,4) by (intro float64_of_int_finite) simp_all
  have X0: "0 \<le> ?X" using assms(1) by (intro rtb_nonneg) simp
  have XW: "?X \<le> ?W" using assms(1,2) by (intro rtb_mono) simp_all
  have W1: "1 \<le> ?W" using assms(3,4) by (rule int_conv(1))
  then have Wpos: "0 < ?W" by linarith
  have q0: "0 \<le> ?X / ?W" using X0 Wpos by simp
  have q1: "?X / ?W \<le> 1" using XW Wpos by simp
  have "(1::rat) \<le> 2 powi 1023" using powi2_mono[of 0 1023] by simp
  then have "?X / ?W \<le> 2 powi 1023" using q1 by linarith
  then have fin: "round64 (?X / ?W) = Finite (round_to_binary64 (?X / ?W))"
    using q0 by (intro round64_finite)
  have "round_to_binary64 (?X / ?W) \<le> round_to_binary64 1" using q0 q1 by (rule rtb_mono)
  then have r1: "round_to_binary64 (?X / ?W) \<le> 1" by simp
  have r0: "0 \<le> round_to_binary64 (?X / ?W)" using q0 by (rule rtb_nonneg)
  have "float_div (float64_of_int x) (float64_of_int w) = Finite (round_to_binary64 (?X / ?W))"
    using Wpos fin by (simp add: fx fw)
  then show ?thesis using r0 r1 by blast
qed

lemma click_ratio_exact:
  fixes x w :: int
  assumes "0 \<le> x" and "x \<le> w" and "0 < w" and "w < 2 ^ 53"
  shows "float_div (float64_of_int x) (float64_of_int w) = Finite (round_to_binary64 (of_int x / of_int w))"
    and "\<bar>round_to_binary64 (of_int x / of_int w) - of_int x / of_int w\<bar> \<le> of_int x / of_int w * u53"
proof -
  let ?q = "of_int x / of_int w :: rat"
  have x53: "x < 2 ^ 53" using assms(2,4) by simp
  have fx: "float64_of_int x = Finite (of_int x)" using assms(1) x53 by (rule float64_of_int_exact)
  have fw: "float64_of_int w = Finite (of_int w)" using assms(3,4) by (intro float64_of_int_exact) simp_all
  have wr: "(0::rat) < of_int w" using assms(3) by simp
  have q0: "0 \<le> ?q" using assms(1) wr by simp
  have q1: "?q \<le> 1" using assms(2) wr by simp
  have "(1::rat) \<le> 2 powi 1023" using powi2_mono[of 0 1023] by simp
  then have "?q \<le> 2 powi 1023" using q1 by linarith
  then have fin: "round64 ?q = Finite (round_to_binary64 ?q)" using q0 by (intro round64_finite)
  show "float_div (float64_of_int x) (float64_of_int w) = Finite (round_to_binary64 ?q)"
    using wr fin by (simp add: fx fw)
  show "\<bar>round_to_binary64 ?q - ?q\<bar> \<le> ?q * u53"
  proof (cases "x = 0")
    case True
    then show ?thesis by simp
  next
    case False
    then have "(1::rat) \<le> of_int x" using assms(1) by simp
    moreover have "w \<le> 2 ^ 53" using assms(4) by simp
    then have "(of_int w :: rat) \<le> of_int (2 ^ 53)" by (simp only: of_int_le_iff)
    then have "(of_int w :: rat) \<le> 2 powi 53" by simp
    ultimately have "1 / 2 powi 53 \<le> ?q" using wr by (intro frac_le) simp_all
    then have t1: "2 powi (- 53) \<le> ?q" by (simp add: power_int_minus field_simps)
    have t2: "(2::rat) powi (- 1022) \<le> 2 powi (- 53)" by (rule powi2_mono) simp
    have "2 powi (- 1022) \<le> ?q" using t2 t1 by (rule order_trans)
    then show ?thesis unfolding u53_def by (rule rtb_error)
  qed
qed

lemma HandleEvents_append:
  assumes "HandleEvents evs_before start = (display, Waiting)"
  shows "HandleEvents (evs_before @ evs) start = HandleEvents evs display"
  using assms
  by (induction evs_before start rule: HandleEvents.induct) simp_all

text \<open>
  C9. Every ButtonPress event that the loop receives, at whatever position of the event
  stream (the events before it have left the loop waiting), is handled by \<open>on_ButtonPress\<close>,
  and the loop goes on with the remaining events from the state so reached.
  \<open>on_ButtonPress\<close> stores as opacity the float64 quotient of the clamped pointer position
  \<open>min(windowWidth, max(0, EventX))\<close> by \<open>windowWidth\<close>, leaves the window size as it is, and
  requests a redraw (the dirty flag is set and the deadline is 50 ms after the current
  time). For a window width between 1 and \<open>2^53\<close> the clamped position lies in
  \<open>[0, windowWidth]\<close> and the stored value is the correctly rounded quotient
  \<open>clampedX / windowWidth\<close>, within relative error \<open>2^-53\<close> of it.
\<close>

theorem button_press_opacity:
  "(HandleEvents evs_before start = (display, Waiting) \<longrightarrow>
      HandleEvents (evs_before @ (now, Event (ButtonPressEvent eventX)) # evs_after) start
        = HandleEvents evs_after (on_ButtonPress now eventX display))
   \<and> HandleEvents ((now, Event (ButtonPressEvent eventX)) # evs_after) display
       = HandleEvents evs_after (on_ButtonPress now eventX display)
   \<and> HandleEvents [(now, Event (ButtonPressEvent eventX))] display
       = (on_ButtonPress now eventX display, Waiting)
   \<and> imageOpacity (on_ButtonPress now eventX display)
       = float_div (float64_of_int (min (windowWidth display) (max 0 (sint eventX))))
                   (float64_of_int (windowWidth display))
   \<and> dirty (on_ButtonPress now eventX display)
   \<and> nextRedraw (on_ButtonPress now eventX display) = now + 50 * Millisecond
   \<and> windowWidth (on_ButtonPress now eventX display) = windowWidth display
   \<and> windowHeight (on_ButtonPress now eventX display) = windowHeight display
   \<and> (0 < windowWidth display \<and> windowWidth display < 2 ^ 53 \<longrightarrow>
        0 \<le> min (windowWidth display) (max 0 (sint eventX))
        \<and> min (windowWidth display) (max 0 (sint eventX)) \<le> windowWidth display
        \<and> imageOpacity (on_ButtonPress now eventX display)
            = Finite (round_to_binary64
                (of_int (min (windowWidth display) (max 0 (sint eventX))) / of_int (windowWidth display)))
        \<and> \<bar>round_to_binary64
                (of_int (min (windowWidth display) (max 0 (sint eventX))) / of_int (windowWidth display))
             - of_int (min (windowWidth display) (max 0 (sint eventX))) / of_int (windowWidth display)\<bar>
            \<le> of_int (min (windowWidth display) (max 0 (sint eventX))) / of_int (windowWidth display) * u53)"
proof -
  let ?x = "min (windowWidth display) (max 0 (sint eventX))"
  have pos: "HandleEvents (evs_before @ (now, Event (ButtonPressEvent eventX)) # evs_after) start
        = HandleEvents evs_after (on_ButtonPress now eventX display)"
    if "HandleEvents evs_before start = (display, Waiting)"
    using HandleEvents_append[OF that, of "(now, Event (ButtonPressEvent eventX)) # evs_after"]
    by simp
  have step: "HandleEvents ((now, Event (ButtonPressEvent eventX)) # evs_after) display
       = HandleEvents evs_after (on_ButtonPress now eventX display)"
    by simp
  have single: "HandleEvents [(now, Event (ButtonPressEvent eventX))] display
       = (on_ButtonPress now eventX display, Waiting)"
    by simp
  have op: "imageOpacity (on_ButtonPress now eventX display)
       = float_div (float64_of_int ?x) (float64_of_int (windowWidth display))"
    by (simp add: on_ButtonPress_def requestRedraw_def Let_def)
  have others: "dirty (on_ButtonPress now eventX display)"
    "nextRedraw (on_ButtonPress now eventX display) = now + 50 * Millisecond"
    "windowWidth (on_ButtonPress now eventX display) = windowWidth display"
    "windowHeight (on_ButtonPress now eventX display) = windowHeight display"
    by (simp_all add: on_ButtonPress_def requestRedraw_def Let_def)
  have ex: "0 \<le> ?x \<and> ?x \<le> windowWidth display
       \<and> imageOpacity (on_ButtonPress now eventX display)
            = Finite (round_to_binary64 (of_int ?x / of_int (windowWidth display)))
       \<and> \<bar>round_to_binary64 (of_int ?x / of_int (windowWidth display))
             - of_int ?x / of_int (windowWidth display)\<bar>
            \<le> of_int ?x / of_int (windowWidth display) * u53"
    if w: "0 < windowWidth display" "windowWidth display < 2 ^ 53"
  proof -
    have x0: "0 \<le> ?x" using w(1) by simp
    have xw: "?x \<le> windowWidth display" by simp
    show ?thesis
      using click_ratio_exact[OF x0 xw w] x0 xw by (simp only: op simp_thms)
  qed
  show ?thesis
    using pos step single op others ex by blast
qed

theorem button_press_opacity_witness:
  "(0::int) < 400 \<and> (400::int) < 2 ^ 53
   \<and> HandleEvents [(0, XError)]
        \<lparr>imageOpacity = Finite (1 / 2), windowWidth = 400, windowHeight = 100,
         nextRedraw = 0, dirty = False\<rparr>
       = (\<lparr>imageOpacity = Finite (1 / 2), windowWidth = 400, windowHeight = 100,
           nextRedraw = 0, dirty = False\<rparr>, Waiting)
   \<and> imageOpacity (fst (HandleEvents
        ([(0, XError)] @ (1, Event (ButtonPressEvent 100)) # [(2, Event OtherEvent)])
        \<lparr>imageOpacity = Finite (1 / 2), windowWidth = 400, windowHeight = 100,
         nextRedraw = 0, dirty = False\<rparr>)) = Finite (1 / 4)
   \<and> imageOpacity (on_ButtonPress 1 100
        \<lparr>imageOpacity = Finite (1 / 2), windowWidth = 400, windowHeight = 100,
         nextRedraw = 0, dirty = False\<rparr>) = Finite (1 / 4)
   \<and> dirty (on_ButtonPress 1 100
        \<lparr>imageOpacity = Finite (1 / 2), windowWidth = 400, windowHeight = 100,
         nextRedraw = 0, dirty = False\<rparr>)"
proof -
  let ?d = "\<lparr>imageOpacity = Finite (1 / 2), windowWidth = 400, windowHeight = 100,
         nextRedraw = 0, dirty = False\<rparr>"
  note T = button_press_opacity[where evs_before = "[(0, XError)]" and start = ?d
      and display = ?d and now = 1 and eventX = 100 and evs_after = "[(2, Event OtherEvent)]"]
  have r: "round_to_binary64 (1 / 4) = 1 / 4" by code_simp
  have pre: "HandleEvents [(0, XError)] ?d = (?d, Waiting)" by simp
  have w: "0 < windowWidth ?d \<and> windowWidth ?d < 2 ^ 53" by simp
  have op: "imageOpacity (on_ButtonPress 1 100 ?d) = Finite (1 / 4)"
    using T w by (auto simp: r)
  have d: "dirty (on_ButtonPress 1 100 ?d)" using T by blast
  have "HandleEvents ([(0, XError)] @ (1, Event (ButtonPressEvent 100)) # [(2, Event OtherEvent)]) ?d
      = HandleEvents [(2, Event OtherEvent)] (on_ButtonPress 1 100 ?d)"
    using T pre by blast
  then have "imageOpacity (fst (HandleEvents
        ([(0, XError)] @ (1, Event (ButtonPressEvent 100)) # [(2, Event OtherEvent)]) ?d)) = Finite (1 / 4)"
    using op by simp
  then show ?thesis using pre op d by simp
qed

lemma clamp_in_unit:
  assumes "initialOpacity \<noteq> NaN"
  shows "opacity_in_unit (float_min (Finite 1) (float_max (Finite 0) initialOpacity))"
  using assms by (cases initialOpacity) (auto simp: float_min_def float_max_def opacity_in_unit_def)

lemma initial_window_ok:
  assumes "initialOpacity \<noteq> NaN" and "1 \<le> imageWidth" and "imageWidth < 2 ^ 63"
  shows "view_ok (initial_window initialOpacity imageWidth imageHeight now)"
  using assms clamp_in_unit[OF assms(1)]
  by (simp add: view_ok_def initial_window_def requestRedraw_def)

lemma on_ConfigureNotify_ok:
  assumes "view_ok display" and "w \<noteq> 0"
  shows "view_ok (on_ConfigureNotify now w h display)"
proof -
  have "0 < uint w" "uint w < 2 ^ 16" using uint16_range[OF assms(2)] by simp_all
  then have "1 \<le> uint w" "uint w < 2 ^ 63" by simp_all
  then show ?thesis
    using assms(1) by (simp add: view_ok_def on_ConfigureNotify_def requestRedraw_def)
qed

lemma on_ButtonPress_ok:
  assumes "view_ok display"
  shows "view_ok (on_ButtonPress now eventX display)"
proof -
  let ?w = "windowWidth display"
  let ?x = "min ?w (max 0 (sint eventX))"
  have w: "0 < ?w" "?w < 2 ^ 63" using assms by (simp_all add: view_ok_def)
  have x0: "0 \<le> ?x" using w(1) by simp
  have xw: "?x \<le> ?w" by simp
  obtain q where q: "float_div (float64_of_int ?x) (float64_of_int ?w) = Finite q" "0 \<le> q" "q \<le> 1"
    using click_ratio[OF x0 xw w] by blast
  have "imageOpacity (on_ButtonPress now eventX display) = Finite q"
    using q(1) by (simp add: on_ButtonPress_def requestRedraw_def Let_def)
  moreover have "windowWidth (on_ButtonPress now eventX display) = ?w"
    by (simp add: on_ButtonPress_def requestRedraw_def Let_def)
  ultimately show ?thesis
    using q(2,3) w by (simp add: view_ok_def opacity_in_unit_def)
qed

lemma HandleEvents_ok:
  assumes "view_ok display" and "widths_positive evs"
  shows "view_ok (fst (HandleEvents evs display))"
  using assms
proof (induction evs display rule: HandleEvents.induct)
  case (4 now w h rest display)
  then show ?case by (simp add: on_ConfigureNotify_ok)
next
  case (5 now eventX rest display)
  then show ?case by (simp add: on_ButtonPress_ok)
qed simp_all

text \<open>
  C10. The claim lets a ConfigureNotify carry arbitrary dimensions, and fails for a width
  of 0. From the initial state of a 200 by 100 image with opacity 0.5, a ConfigureNotify
  with width 0 followed by a ButtonPress makes the handler divide 0 by 0: the stored
  opacity is NaN, not a number in [0,1]. (\<open>HandleEvents_ok\<close> shows that the opacity stays in
  [0,1] as long as no ConfigureNotify reports a width of 0.)
\<close>

theorem opacity_nan_after_zero_width:
  "view_ok (initial_window (Finite (1 / 2)) 200 100 0)
   \<and> imageOpacity (fst (HandleEvents
         [(1, Event (ConfigureNotifyEvent 0 100)), (2, Event (ButtonPressEvent 5))]
         (initial_window (Finite (1 / 2)) 200 100 0))) = NaN
   \<and> \<not> opacity_in_unit (imageOpacity (fst (HandleEvents
         [(1, Event (ConfigureNotifyEvent 0 100)), (2, Event (ButtonPressEvent 5))]
         (initial_window (Finite (1 / 2)) 200 100 0))))"
proof -
  have z: "float64_of_int 0 = Finite 0" by (simp add: float64_of_int_exact)
  show ?thesis
    by (simp add: view_ok_def opacity_in_unit_def initial_window_def requestRedraw_def
        float_min_def float_max_def on_ConfigureNotify_def on_ButtonPress_def Let_def z)
qed

section \<open>The renderer goroutine and Close: proofs\<close>

lemma requestRedraw_deadline:
  "dirty (requestRedraw now w) \<and> nextRedraw (requestRedraw now w) = now + 50 * Millisecond"
  by (simp add: requestRedraw_def)

lemma served_mono: "served rs t \<Longrightarrow> t \<le> t' \<Longrightarrow> served rs t'"
  unfolding served_def by (meson less_le_trans)

lemma served_append: "served rs t \<Longrightarrow> served (rs @ [r]) t"
  unfolding served_def by auto

lemma sched_inv_start: "\<not> dirty w \<Longrightarrow> sched_inv (system_start w now)"
  by (simp add: sched_inv_def system_start_def)

lemma sched_inv_step:
  assumes "sched_inv s" and "sys_step a s = Some s'"
  shows "sched_inv s'"
proof (cases a)
  case (Tick d)
  then have d: "0 \<le> d" and s': "s' = s\<lparr>clock := clock s + d\<rparr>"
    using assms(2) by (auto simp: sys_step_def split: if_splits)
  have m: "served (requests s) (clock s) \<Longrightarrow> served (requests s) (clock s + d)"
    using d by (auto intro: served_mono)
  show ?thesis
    using assms(1) d m unfolding sched_inv_def s' by (auto intro: order_trans)
next
  case MainRequest
  then have s': "s' = s\<lparr>window := requestRedraw (clock s) (window s),
                       requests := requests s @ [clock s]\<rparr>"
    using assms(2) by (auto simp: sys_step_def split: if_splits)
  show ?thesis
    using assms(1) unfolding sched_inv_def s'
    by (auto simp: requestRedraw_def intro: served_append)
next
  case MainClose
  then have "close_step s = Some s'" using assms(2) by (simp add: sys_step_def)
  then show ?thesis
    using assms(1) unfolding sched_inv_def close_step_def
    by (cases "cpc s") (auto split: if_splits)
next
  case Renderer
  then have r: "renderer_step s = Some s'" using assms(2) by (simp add: sys_step_def)
  show ?thesis
  proof (cases "rpc s")
    case (R_test d n)
    then have s': "s' = s\<lparr>rpc := (if d \<and> n < clock s then R_clear else R_select)\<rparr>"
      using r by (simp add: renderer_step_def)
    show ?thesis
      using assms(1) R_test unfolding sched_inv_def s' served_def by auto
  qed (use r assms(1) in \<open>auto simp: sched_inv_def renderer_step_def split: if_splits\<close>)
qed

lemma sched_inv_exec:
  assumes "sched_inv s" and "exec as s = Some s'"
  shows "sched_inv s'"
  using assms
proof (induction as arbitrary: s)
  case Nil
  then show ?case by simp
next
  case (Cons a as)
  then show ?case by (auto split: option.splits dest: sched_inv_step)
qed

lemma renders_after_some_deadline:
  assumes "\<not> dirty w" and "exec as (system_start w now) = Some s" and "p \<in> set (renders s)"
  shows "\<exists>r \<in> set (requests s). r + 50 * Millisecond < fired_at p"
  using sched_inv_exec[OF sched_inv_start[OF assms(1)] assms(2)] assms(3)
  by (auto simp: sched_inv_def served_def)

lemma exec_append:
  "exec (as @ bs) s = (case exec as s of None \<Rightarrow> None | Some s' \<Rightarrow> exec bs s')"
  by (induction as arbitrary: s) (auto split: option.splits)

lemma after_polls:
  "exec first_request_and_polls (system_start window0 0)
     = Some \<lparr>window = window0\<lparr>nextRedraw := 50000200, dirty := True\<rparr>, clock = 50000000,
             cancelled = False, conn_closed = False, wg = 1, rpc = R_sleep 50000000,
             cpc = C_idle, requests = [200], renders = []\<rparr>"
  by (simp add: first_request_and_polls_def idle_poll_def system_start_def eval_nat_numeral
      sys_step_def renderer_step_def requestRedraw_def Millisecond_def)

text \<open>
  C2. The failing run. \<open>requestRedraw\<close> is called at 200 ns and at 50.0001 ms, less than
  one debounce window apart. The only render pass fires at 50.0003 ms: before the deadline
  in force at that moment (100.0001 ms), and 200 ns, not 50 ms, after the last call.
\<close>

theorem debounce_race:
  "map_option requests (exec race_schedule (system_start window0 0)) = Some [200, 50000100]
   \<and> map_option renders (exec race_schedule (system_start window0 0))
       = Some [\<lparr>fired_at = 50000300, deadline_at_fire = 100000100, on_closed_conn = False\<rparr>]
   \<and> (50000100 - 200 :: int) < 50 * Millisecond
   \<and> (50000300 :: int) < 50000100 + 50 * Millisecond"
  by (simp add: race_schedule_def exec_append after_polls
      sys_step_def renderer_step_def requestRedraw_def Millisecond_def)

text \<open>
  C6. Two failing runs. In the first, \<open>Close\<close> is called while a render pass is pending:
  the connection is closed before the renderer has exited, the render pass then runs on
  the closed connection, and only afterwards does \<open>Close\<close> return. In the second, \<open>Close\<close>
  is called before the renderer goroutine has run \<open>wg.Add(1)\<close>: \<open>wg.Wait()\<close> returns
  at once, and the renderer is still alive and able to move after \<open>Close\<close> has returned.
\<close>

theorem close_before_renderer_exit:
  "map_option renders (exec close_schedule (system_start window0 0))
       = Some [\<lparr>fired_at = 55000000, deadline_at_fire = 50000200, on_closed_conn = True\<rparr>]
   \<and> map_option cpc (exec close_schedule (system_start window0 0)) = Some C_returned
   \<and> map_option rpc (exec early_close_schedule (system_start window0 0)) = Some R_start
   \<and> map_option cpc (exec early_close_schedule (system_start window0 0)) = Some C_returned
   \<and> map_option rpc (exec (early_close_schedule @ [Renderer]) (system_start window0 0)) = Some R_select"
proof -
  have early: "exec early_close_schedule (system_start window0 0)
      = Some ((system_start window0 0)\<lparr>cancelled := True, conn_closed := True, cpc := C_returned\<rparr>)"
    by (simp add: early_close_schedule_def sys_step_def close_step_def system_start_def)
  show ?thesis
    by (simp add: close_schedule_def exec_append after_polls early idle_poll_def
        sys_step_def renderer_step_def close_step_def requestRedraw_def Millisecond_def)
      (simp add: system_start_def)
qed

section \<open>Process entry: proofs\<close>






end
